theory Spec2Isabelle
  imports Complex_Main
begin

section \<open>PsSpecialHandler: the PostScript operator engine of dvisvgm\<close>

text \<open>
  The development follows \<^verbatim>\<open>PsSpecialHandler.cpp\<close>. C++ \<^verbatim>\<open>double\<close> values are
  idealised as real numbers. An \<^verbatim>\<open>int\<close> of the code is an integer of the model; the
  conversion from \<^verbatim>\<open>double\<close> keeps it within 32 bits. Operand vectors are lists; every
  operator is applied to an operand list of the arity the PostScript engine passes to it.
\<close>

subsection \<open>Numbers and matrices\<close>

text \<open>
  \<^verbatim>\<open>static_cast<int>(double)\<close> and the implicit conversion of a \<^verbatim>\<open>double\<close> to an \<^verbatim>\<open>int\<close>:
  truncation towards zero, for a value that fits the 32 bits of an \<^verbatim>\<open>int\<close>. For any other
  value C++ leaves the result open; the conversion instruction of x86-64 yields
  \<^verbatim>\<open>INT_MIN\<close>, and so does the model.
\<close>

definition INT_MIN :: int where
  "INT_MIN = - 2147483648"

definition INT_MAX :: int where
  "INT_MAX = 2147483647"

definition trunc :: "real \<Rightarrow> int" where
  "trunc x = (if 0 \<le> x then \<lfloor>x\<rfloor> else \<lceil>x\<rceil>)"

definition static_cast_int :: "real \<Rightarrow> int" where
  "static_cast_int x = (if INT_MIN \<le> trunc x \<and> trunc x \<le> INT_MAX then trunc x else INT_MIN)"

text \<open>
  A \<^verbatim>\<open>Matrix\<close> is a 3x3 array of doubles, here in row-major order. The comment of
  \<^verbatim>\<open>create_matrix\<close> (lines 607-610) fixes the layout: the PostScript matrix
  \<^verbatim>\<open>[a b c d e f]\<close> is stored as \<^verbatim>\<open>((a,c,e),(b,d,f),(0,0,1))\<close>, so a matrix acts on
  column vectors.
\<close>

datatype Matrix = Matrix real real real  real real real  real real real

definition identity_matrix :: Matrix where
  "identity_matrix = Matrix 1 0 0  0 1 0  0 0 1"

fun mat_mult :: "Matrix \<Rightarrow> Matrix \<Rightarrow> Matrix" where
  "mat_mult (Matrix a11 a12 a13 a21 a22 a23 a31 a32 a33)
            (Matrix b11 b12 b13 b21 b22 b23 b31 b32 b33) =
     Matrix (a11 * b11 + a12 * b21 + a13 * b31) (a11 * b12 + a12 * b22 + a13 * b32)
            (a11 * b13 + a12 * b23 + a13 * b33)
            (a21 * b11 + a22 * b21 + a23 * b31) (a21 * b12 + a22 * b22 + a23 * b32)
            (a21 * b13 + a22 * b23 + a23 * b33)
            (a31 * b11 + a32 * b21 + a33 * b31) (a31 * b12 + a32 * b22 + a33 * b32)
            (a31 * b13 + a32 * b23 + a33 * b33)"

text \<open>
  Modelled from the spec: \<^verbatim>\<open>Matrix::lmultiply\<close>, \<^verbatim>\<open>Matrix::isIdentity\<close> and the classes
  \<^verbatim>\<open>ScalingMatrix\<close>, \<^verbatim>\<open>TranslationMatrix\<close> and \<^verbatim>\<open>RotationMatrix\<close> (Matrix.cpp) are not
  part of the source at hand. The spec (4.1) and the comment at lines 1007-1009 say that
  the delta is left-multiplied onto the current matrix, \<open>M' = \<Delta> \<cdot> M\<close>; the elementary
  matrices are the usual affine ones for column vectors, the rotation angle being given
  in degrees as in PostScript.
\<close>

definition lmultiply :: "Matrix \<Rightarrow> Matrix \<Rightarrow> Matrix" where
  "lmultiply m tm = mat_mult tm m"

definition isIdentity :: "Matrix \<Rightarrow> bool" where
  "isIdentity m = (m = identity_matrix)"

definition ScalingMatrix :: "real \<Rightarrow> real \<Rightarrow> Matrix" where
  "ScalingMatrix sx sy = Matrix sx 0 0  0 sy 0  0 0 1"

definition TranslationMatrix :: "real \<Rightarrow> real \<Rightarrow> Matrix" where
  "TranslationMatrix tx ty = Matrix 1 0 tx  0 1 ty  0 0 1"

definition RotationMatrix :: "real \<Rightarrow> Matrix" where
  "RotationMatrix deg =
     (let rad = deg * pi / 180
      in Matrix (cos rad) (- sin rad) 0  (sin rad) (cos rad) 0  0 0 1)"

subsection \<open>Paths\<close>

type_synonym DPair = "real \<times> real"

datatype Command =
    MoveTo DPair
  | LineTo DPair
  | CubicTo DPair DPair DPair
  | ClosePath

datatype WindingRule = WR_EVEN_ODD | WR_NON_ZERO

record Path =
  commands :: "Command list"
  windingRule :: WindingRule

text \<open>
  Modelled from the spec: \<^verbatim>\<open>GraphicsPath\<close> (GraphicsPath.h) is not part of the source at
  hand. By the spec (3, 4.2) a path is an ordered sequence of move, line, cubic and close
  segments with a winding rule (nonzero by default); it can be tested for emptiness and
  for degenerating to a single point, it can be mapped through a transform, and redundant
  consecutive no-op segments can be removed. Of several consecutive movetos only the last
  one has an effect; a path is a dot when it starts with a moveto and no later segment
  leaves that point.
\<close>

definition new_Path :: Path where
  "new_Path = \<lparr>commands = [], windingRule = WR_NON_ZERO\<rparr>"

definition path_moveto :: "real \<Rightarrow> real \<Rightarrow> Path \<Rightarrow> Path" where
  "path_moveto x y p = p\<lparr>commands := commands p @ [MoveTo (x, y)]\<rparr>"

definition path_lineto :: "real \<Rightarrow> real \<Rightarrow> Path \<Rightarrow> Path" where
  "path_lineto x y p = p\<lparr>commands := commands p @ [LineTo (x, y)]\<rparr>"

definition path_closepath :: "Path \<Rightarrow> Path" where
  "path_closepath p = p\<lparr>commands := commands p @ [ClosePath]\<rparr>"

definition path_empty :: "Path \<Rightarrow> bool" where
  "path_empty p = (commands p = [])"

definition path_clear :: "Path \<Rightarrow> Path" where
  "path_clear p = p\<lparr>commands := []\<rparr>"

definition setWindingRule :: "WindingRule \<Rightarrow> Path \<Rightarrow> Path" where
  "setWindingRule wr p = p\<lparr>windingRule := wr\<rparr>"

definition path_prepend :: "Path \<Rightarrow> Path \<Rightarrow> Path" where
  "path_prepend other p = p\<lparr>commands := commands other @ commands p\<rparr>"

fun remove_redundant :: "Command list \<Rightarrow> Command list" where
  "remove_redundant (MoveTo p # MoveTo q # cs) = remove_redundant (MoveTo q # cs)"
| "remove_redundant (c # cs) = c # remove_redundant cs"
| "remove_redundant [] = []"

definition removeRedundantCommands :: "Path \<Rightarrow> Path" where
  "removeRedundantCommands p = p\<lparr>commands := remove_redundant (commands p)\<rparr>"

fun stays_at :: "DPair \<Rightarrow> Command \<Rightarrow> bool" where
  "stays_at p (MoveTo q) = False"
| "stays_at p (LineTo q) = (q = p)"
| "stays_at p (CubicTo q1 q2 q3) = (q1 = p \<and> q2 = p \<and> q3 = p)"
| "stays_at p ClosePath = True"

definition isDot :: "Path \<Rightarrow> DPair option" where
  "isDot p =
     (case commands p of
        MoveTo q # cs \<Rightarrow> if list_all (stays_at q) cs then Some q else None
      | _ \<Rightarrow> None)"

fun mat_apply :: "Matrix \<Rightarrow> DPair \<Rightarrow> DPair" where
  "mat_apply (Matrix a11 a12 a13 a21 a22 a23 a31 a32 a33) (x, y) =
     (a11 * x + a12 * y + a13, a21 * x + a22 * y + a23)"

fun transform_command :: "Matrix \<Rightarrow> Command \<Rightarrow> Command" where
  "transform_command m (MoveTo p) = MoveTo (mat_apply m p)"
| "transform_command m (LineTo p) = LineTo (mat_apply m p)"
| "transform_command m (CubicTo p q r) = CubicTo (mat_apply m p) (mat_apply m q) (mat_apply m r)"
| "transform_command m ClosePath = ClosePath"

definition path_transform :: "Matrix \<Rightarrow> Path \<Rightarrow> Path" where
  "path_transform m p = p\<lparr>commands := map (transform_command m) (commands p)\<rparr>"

subsection \<open>The clipping stack\<close>

text \<open>
  \<^verbatim>\<open>ClippingStack\<close> holds the vector \<^verbatim>\<open>_paths\<close> of all clipping paths and the
  \<^verbatim>\<open>std::stack\<close> of entries; the head of the list \<open>stack\<close> is the top of the stack.

  Modelled from the spec: the struct \<^verbatim>\<open>Entry\<close>, the method \<^verbatim>\<open>topID\<close> and the default
  arguments of \<^verbatim>\<open>dup\<close> and \<^verbatim>\<open>pop\<close> are declared in the header, which is not part of the
  source at hand. By the spec (3) an entry holds the 1-based index \<open>pathID\<close> of its path
  (0: no clipping path), the \<open>saveID\<close> (negative for an unnamed save) and the flag
  \<open>cpathLoaded\<close>; the constructor \<^verbatim>\<open>Entry(id, sid)\<close> sets the two IDs and clears the flag.
  By the spec (4.3) \<^verbatim>\<open>gsave\<close> tags its entry with \<open>-1\<close> and \<^verbatim>\<open>grestore\<close> pops one entry:
  the defaults are \<^verbatim>\<open>dup(-1)\<close> and \<^verbatim>\<open>pop(-1, false)\<close>.
\<close>

record Entry =
  pathID :: nat
  saveID :: int
  cpathLoaded :: bool

definition new_Entry :: "nat \<Rightarrow> int \<Rightarrow> Entry" where
  "new_Entry pid sid = \<lparr>pathID = pid, saveID = sid, cpathLoaded = False\<rparr>"

record ClippingStack =
  paths :: "Path list"
  stack :: "Entry list"

text \<open>Lines 1092-1095.\<close>

definition pushEmptyPath :: "ClippingStack \<Rightarrow> ClippingStack" where
  "pushEmptyPath cs =
     (if stack cs \<noteq> [] then cs\<lparr>stack := new_Entry 0 (-1) # stack cs\<rparr> else cs)"

text \<open>Lines 1098-1105.\<close>

definition push :: "Path \<Rightarrow> int \<Rightarrow> ClippingStack \<Rightarrow> ClippingStack" where
  "push p sid cs =
     (if path_empty p then cs\<lparr>stack := new_Entry 0 sid # stack cs\<rparr>
      else let ps = paths cs @ [p]
           in cs\<lparr>paths := ps, stack := new_Entry (length ps) sid # stack cs\<rparr>)"

text \<open>Lines 1117-1135. The two \<^verbatim>\<open>while\<close> loops pop a prefix of the stack.\<close>

definition pop :: "int \<Rightarrow> bool \<Rightarrow> ClippingStack \<Rightarrow> ClippingStack" where
  "pop sid grestoreall cs =
     (if stack cs \<noteq> [] then
        (if sid < 0 then
           let st1 = (if saveID (hd (stack cs)) < 0 then tl (stack cs) else stack cs);
               st2 = (if grestoreall then dropWhile (\<lambda>e. saveID e < 0) st1 else st1)
           in cs\<lparr>stack := st2\<rparr>
         else
           let st1 = dropWhile (\<lambda>e. saveID e \<noteq> sid) (stack cs);
               st2 = (if st1 \<noteq> [] then tl st1 else st1)
           in cs\<lparr>stack := st2\<rparr>)
      else cs)"

text \<open>Lines 1139-1143, \<^verbatim>\<open>top\<close>: the path of the top entry, if it has one.\<close>

definition top_path :: "ClippingStack \<Rightarrow> Path option" where
  "top_path cs =
     (if stack cs \<noteq> [] \<and> pathID (hd (stack cs)) \<noteq> 0
      then Some (paths cs ! (pathID (hd (stack cs)) - 1)) else None)"

text \<open>\<^verbatim>\<open>topID\<close> (header): the path ID of the top entry, 0 for the empty stack.\<close>

definition topID :: "ClippingStack \<Rightarrow> nat" where
  "topID cs = (if stack cs = [] then 0 else pathID (hd (stack cs)))"

text \<open>Lines 1146-1148.\<close>

definition getPath :: "nat \<Rightarrow> ClippingStack \<Rightarrow> Path option" where
  "getPath i cs = (if 0 < i \<and> i \<le> length (paths cs) then Some (paths cs ! (i - 1)) else None)"

text \<open>Lines 1152-1161.\<close>

definition clippathLoaded :: "ClippingStack \<Rightarrow> bool" where
  "clippathLoaded cs = (stack cs \<noteq> [] \<and> cpathLoaded (hd (stack cs)))"

definition setClippathLoaded :: "bool \<Rightarrow> ClippingStack \<Rightarrow> ClippingStack" where
  "setClippathLoaded loaded cs =
     (if stack cs = [] then cs
      else cs\<lparr>stack := (hd (stack cs))\<lparr>cpathLoaded := loaded\<rparr> # tl (stack cs)\<rparr>)"

text \<open>Lines 1174-1181.\<close>

definition replace :: "Path \<Rightarrow> ClippingStack \<Rightarrow> ClippingStack" where
  "replace p cs =
     (if stack cs = [] then push p (-1) cs
      else let ps = paths cs @ [p]
           in cs\<lparr>paths := ps, stack := (hd (stack cs))\<lparr>pathID := length ps\<rparr> # tl (stack cs)\<rparr>)"

text \<open>Lines 1185-1188.\<close>

definition dup :: "int \<Rightarrow> ClippingStack \<Rightarrow> ClippingStack" where
  "dup sid cs =
     (let e = (if stack cs = [] then new_Entry 0 (-1) else hd (stack cs))
      in cs\<lparr>stack := e\<lparr>saveID := sid\<rparr> # stack cs\<rparr>)"

subsection \<open>Colours, patterns, output elements\<close>

text \<open>
  Modelled from the spec: \<^verbatim>\<open>Color\<close> (Color.h) is not part of the source at hand. A colour
  is kept as its RGB components; a default-constructed colour is black.
\<close>

datatype Color = RGB real real real

definition BLACK :: Color where
  "BLACK = RGB 0 0 0"

definition setRGB :: "real \<Rightarrow> real \<Rightarrow> real \<Rightarrow> Color" where
  "setRGB r g b = RGB r g b"

datatype ColorSpace = GRAY_SPACE | RGB_SPACE | CMYK_SPACE

text \<open>
  Modelled from the spec: the pattern classes (PSPattern.h) are not part of the source at
  hand. By the spec (3, 4.4) a pattern is identified by an integer ID and is a coloured or
  an uncoloured tiling pattern, the latter tinted with a colour when it is selected.
  \<open>PSOtherPattern\<close> stands for a pattern that is no \<^verbatim>\<open>PSTilingPattern\<close>.
\<close>

datatype PSPattern =
    PSColoredTilingPattern int
  | PSUncoloredTilingPattern int Color
  | PSOtherPattern int

text \<open>
  \<^verbatim>\<open>BoundingBox\<close> (BoundingBox.h) is not part of the source at hand: a bounding box is
  kept as the term of the operations that the handler applies to it.
\<close>

datatype BoundingBox =
    BBox_default
  | BBox_rect real real real real
  | BBox_computed Path BoundingBox
  | BBox_expand BoundingBox real
  | BBox_transform BoundingBox Matrix
  | BBox_intersect BoundingBox BoundingBox

text \<open>
  Attribute values: the strings that the handler builds are kept structured.
  \<open>PathData\<close> is the text written by \<^verbatim>\<open>writeSVG\<close>, \<open>ColorString\<close> the result of
  \<^verbatim>\<open>svgColorString\<close>, \<open>ClipUrl n\<close> the reference \<^verbatim>\<open>url(#clip<n>)\<close>, \<open>ClipID n\<close> the name
  \<^verbatim>\<open>clip<n>\<close>, \<open>PatternUrl\<close> the reference \<^verbatim>\<open>url(#<svgID>)\<close> to a pattern and
  \<open>NumList\<close> a comma-separated list of numbers.
\<close>

datatype AttrValue =
    Str string
  | Num real
  | PathData Path
  | ColorString Color
  | ClipUrl nat
  | ClipID nat
  | PatternUrl PSPattern
  | NumList "real list"

datatype XMLElementNode =
  XMLElementNode (elem_name: string) (attributes: "(string \<times> AttrValue) list")
    (children: "XMLElementNode list")

definition new_XMLElementNode :: "string \<Rightarrow> XMLElementNode" where
  "new_XMLElementNode n = XMLElementNode n [] []"

fun addAttribute :: "string \<Rightarrow> AttrValue \<Rightarrow> XMLElementNode \<Rightarrow> XMLElementNode" where
  "addAttribute k v (XMLElementNode n as cs) = XMLElementNode n (as @ [(k, v)]) cs"

fun append_child :: "XMLElementNode \<Rightarrow> XMLElementNode \<Rightarrow> XMLElementNode" where
  "append_child c (XMLElementNode n as cs) = XMLElementNode n as (cs @ [c])"

definition attribute :: "string \<Rightarrow> XMLElementNode \<Rightarrow> AttrValue option" where
  "attribute k e = map_of (attributes e) k"

text \<open>
  The handler hands its results to the host (\<^verbatim>\<open>SpecialActions\<close>) and to container nodes.
  The calls are recorded in order: \<open>ToPage\<close> for \<^verbatim>\<open>appendToPage\<close>, \<open>ToDefs\<close> for
  \<^verbatim>\<open>appendToDefs\<close>, \<open>Embed\<close> for \<^verbatim>\<open>embed\<close>, \<open>ToNode n\<close> for \<^verbatim>\<open>append\<close> on the container
  node with handle \<open>n\<close> that \<^verbatim>\<open>_xmlnode\<close> points to, \<open>ToGroup\<close> for \<^verbatim>\<open>append\<close> on the group
  element of the latest \<^verbatim>\<open>ShadingCallback\<close>, and \<open>ApplyPattern\<close> for \<^verbatim>\<open>PSPattern::apply\<close>.
\<close>

datatype Output =
    ToPage XMLElementNode
  | ToDefs XMLElementNode
  | Embed BoundingBox
  | ToNode nat XMLElementNode
  | ToGroup XMLElementNode
  | ApplyPattern PSPattern

text \<open>
  Modelled from the spec: \<^verbatim>\<open>XMLElementNode::append\<close> and \<^verbatim>\<open>SVGTree::appendToPage\<close> are not
  part of the source at hand. \<^verbatim>\<open>stroke\<close> passes them a null pointer when a dot is stroked
  without round caps; by the spec (8) nothing is produced then, so a null node is not
  appended.
\<close>

definition appendToPage :: "XMLElementNode option \<Rightarrow> Output list \<Rightarrow> Output list" where
  "appendToPage e out = (case e of None \<Rightarrow> out | Some el \<Rightarrow> out @ [ToPage el])"

definition node_append :: "nat \<Rightarrow> XMLElementNode option \<Rightarrow> Output list \<Rightarrow> Output list" where
  "node_append n e out = (case e of None \<Rightarrow> out | Some el \<Rightarrow> out @ [ToNode n el])"

subsection \<open>The state of the handler\<close>

text \<open>
  \<open>actions\<close> is the pointer \<^verbatim>\<open>_actions\<close> to the host; \<open>None\<close> is the null pointer.
  Modelled from the spec: \<^verbatim>\<open>SpecialActions\<close> is not part of the source at hand; by the
  spec (6) the host holds the current transformation matrix and the current colour.
  \<open>xmlnode\<close> and \<open>savenode\<close> are the pointers \<^verbatim>\<open>_xmlnode\<close> and \<^verbatim>\<open>_savenode\<close>, kept as
  handles of the nodes they point to; \<open>pattern\<close> is \<^verbatim>\<open>_pattern\<close> and \<open>patterns\<close> the map
  \<^verbatim>\<open>_patterns\<close>. \<open>emitted\<close> records the calls described above and \<open>messages\<close> what is
  written to \<^verbatim>\<open>Message::estream\<close>. The static tunables of lines 55-58 are part of the state
  as well.
\<close>

record SpecialActions =
  getMatrix :: Matrix
  getColor :: Color

record PsSpecialHandler =
  actions :: "SpecialActions option"
  xmlnode :: "nat option"
  savenode :: "nat option"
  path :: Path
  clipStack :: ClippingStack
  linewidth :: real
  miterlimit :: real
  opacityalpha :: real
  linecap :: nat
  linejoin :: nat
  dashpattern :: "real list"
  dashoffset :: real
  pattern :: "PSPattern option"
  patterns :: "int \<rightharpoonup> PSPattern"
  COMPUTE_CLIPPATHS_INTERSECTIONS :: bool
  SHADING_SEGMENT_OVERLAP :: bool
  SHADING_SEGMENT_SIZE :: int
  SHADING_SIMPLIFY_DELTA :: real
  emitted :: "Output list"
  messages :: "string list"

subsection \<open>Graphics state operators on the clipping stack\<close>

text \<open>Lines 419-441 and 691-693.\<close>

definition gsave :: "real list \<Rightarrow> PsSpecialHandler \<Rightarrow> PsSpecialHandler" where
  "gsave p s = s\<lparr>clipStack := dup (-1) (clipStack s)\<rparr>"

definition grestore :: "real list \<Rightarrow> PsSpecialHandler \<Rightarrow> PsSpecialHandler" where
  "grestore p s = s\<lparr>clipStack := pop (-1) False (clipStack s)\<rparr>"

definition grestoreall :: "real list \<Rightarrow> PsSpecialHandler \<Rightarrow> PsSpecialHandler" where
  "grestoreall p s = s\<lparr>clipStack := pop (-1) True (clipStack s)\<rparr>"

definition save :: "real list \<Rightarrow> PsSpecialHandler \<Rightarrow> PsSpecialHandler" where
  "save p s = s\<lparr>clipStack := dup (static_cast_int (p ! 0)) (clipStack s)\<rparr>"

definition restore :: "real list \<Rightarrow> PsSpecialHandler \<Rightarrow> PsSpecialHandler" where
  "restore p s = s\<lparr>clipStack := pop (static_cast_int (p ! 0)) False (clipStack s)\<rparr>"

definition initclip :: "real list \<Rightarrow> PsSpecialHandler \<Rightarrow> PsSpecialHandler" where
  "initclip p s = s\<lparr>clipStack := pushEmptyPath (clipStack s)\<rparr>"

text \<open>A sequence of unnamed \<^verbatim>\<open>gsave\<close> and \<^verbatim>\<open>grestore\<close> operators.\<close>

datatype UnnamedOp = GSAVE | GRESTORE

fun run_unnamed :: "UnnamedOp list \<Rightarrow> PsSpecialHandler \<Rightarrow> PsSpecialHandler" where
  "run_unnamed [] s = s"
| "run_unnamed (GSAVE # ops) s = run_unnamed ops (gsave [] s)"
| "run_unnamed (GRESTORE # ops) s = run_unnamed ops (grestore [] s)"

text \<open>
  Lines 55-58 and 79-85: the state after \<^verbatim>\<open>initialize\<close>, for a given host. The path, the
  clipping stack, the output and the log are empty.
\<close>

definition initialize :: "SpecialActions option \<Rightarrow> PsSpecialHandler" where
  "initialize act =
     \<lparr>actions = act, xmlnode = None, savenode = None, path = new_Path,
      clipStack = \<lparr>paths = [], stack = []\<rparr>,
      linewidth = 1, miterlimit = 4, opacityalpha = 1, linecap = 0, linejoin = 0,
      dashpattern = [], dashoffset = 0, pattern = None, patterns = Map.empty,
      COMPUTE_CLIPPATHS_INTERSECTIONS = False, SHADING_SEGMENT_OVERLAP = False,
      SHADING_SEGMENT_SIZE = 20, SHADING_SIMPLIFY_DELTA = 0.01,
      emitted = [], messages = []\<rparr>"

subsection \<open>Transformation operators\<close>

text \<open>Lines 1012-1039. Without a host there is no current matrix and nothing changes.\<close>

definition setMatrix :: "Matrix \<Rightarrow> SpecialActions \<Rightarrow> SpecialActions" where
  "setMatrix m act = act\<lparr>getMatrix := m\<rparr>"

definition scale :: "real list \<Rightarrow> PsSpecialHandler \<Rightarrow> PsSpecialHandler" where
  "scale p s =
     (case actions s of
        None \<Rightarrow> s
      | Some act \<Rightarrow>
          let m = getMatrix act;
              sm = ScalingMatrix (p ! 0) (p ! 1)
          in s\<lparr>actions := Some (setMatrix (lmultiply m sm) act)\<rparr>)"

definition translate :: "real list \<Rightarrow> PsSpecialHandler \<Rightarrow> PsSpecialHandler" where
  "translate p s =
     (case actions s of
        None \<Rightarrow> s
      | Some act \<Rightarrow>
          let m = getMatrix act;
              t = TranslationMatrix (p ! 0) (p ! 1)
          in s\<lparr>actions := Some (setMatrix (lmultiply m t) act)\<rparr>)"

definition rotate_op :: "real list \<Rightarrow> PsSpecialHandler \<Rightarrow> PsSpecialHandler" where
  "rotate_op p s =
     (case actions s of
        None \<Rightarrow> s
      | Some act \<Rightarrow>
          let m = getMatrix act;
              r = RotationMatrix (p ! 0)
          in s\<lparr>actions := Some (setMatrix (lmultiply m r) act)\<rparr>)"

subsection \<open>Path construction operators\<close>





subsection \<open>Stroking and filling\<close>

definition addAttribute_if :: "bool \<Rightarrow> string \<Rightarrow> AttrValue \<Rightarrow> XMLElementNode \<Rightarrow> XMLElementNode" where
  "addAttribute_if b k v e = (if b then addAttribute k v e else e)"

text \<open>Lines 483-491: the circle drawn for a dot with round line ends, and its bounding box.\<close>

definition stroke_circle :: "PsSpecialHandler \<Rightarrow> SpecialActions \<Rightarrow> DPair \<Rightarrow> XMLElementNode \<times> BoundingBox" where
  "stroke_circle s act point =
     (let x = fst point;
          y = snd point;
          r = linewidth s / 2;
          e0 = new_XMLElementNode ''circle'';
          e1 = addAttribute ''cx'' (Num x) e0;
          e2 = addAttribute ''cy'' (Num y) e1;
          e3 = addAttribute ''r'' (Num r) e2;
          e4 = addAttribute ''fill'' (ColorString (getColor act)) e3
      in (e4, BBox_rect (x - r) (y - r) (x + r) (y + r)))"

text \<open>Lines 499-525: the path element of a stroke.\<close>

definition stroke_path :: "PsSpecialHandler \<Rightarrow> SpecialActions \<Rightarrow> Path \<Rightarrow> XMLElementNode" where
  "stroke_path s act pth =
     (let e0 = new_XMLElementNode ''path'';
          e1 = addAttribute ''d'' (PathData pth) e0;
          e2 = addAttribute ''stroke'' (ColorString (getColor act)) e1;
          e3 = addAttribute ''fill'' (Str ''none'') e2;
          e4 = addAttribute_if (linewidth s \<noteq> 1) ''stroke-width'' (Num (linewidth s)) e3;
          e5 = addAttribute_if (miterlimit s \<noteq> 4) ''stroke-miterlimit'' (Num (miterlimit s)) e4;
          e6 = addAttribute_if (linecap s > 0) ''stroke-linecap''
                 (Str (if linecap s = 1 then ''round'' else ''square'')) e5;
          e7 = addAttribute_if (linejoin s > 0) ''stroke-linejoin''
                 (Str (if linecap s = 1 then ''round'' else ''bevel'')) e6;
          e8 = addAttribute_if (opacityalpha s < 1) ''stroke-opacity'' (Num (opacityalpha s)) e7
      in if dashpattern s \<noteq> [] then
           addAttribute_if (dashoffset s \<noteq> 0) ''stroke-dashoffset'' (Num (dashoffset s))
             (addAttribute ''stroke-dasharray'' (NumList (dashpattern s)) e8)
         else e8)"

text \<open>
  Lines 527-540 of \<^verbatim>\<open>stroke\<close> and 584-589 of \<^verbatim>\<open>fill\<close>: the element goes to the container
  node, or to the page together with its bounding box.
\<close>

definition deliver :: "XMLElementNode option \<Rightarrow> BoundingBox \<Rightarrow> PsSpecialHandler \<Rightarrow> PsSpecialHandler" where
  "deliver e bbox s =
     (case xmlnode s of
        Some n \<Rightarrow> s\<lparr>emitted := node_append n e (emitted s)\<rparr>
      | None \<Rightarrow> s\<lparr>emitted := appendToPage e (emitted s) @ [Embed bbox]\<rparr>)"

text \<open>Lines 466-542.\<close>

definition stroke :: "real list \<Rightarrow> PsSpecialHandler \<Rightarrow> PsSpecialHandler" where
  "stroke p s0 =
     (let s = s0\<lparr>path := removeRedundantCommands (path s0)\<rparr>
      in case actions s of
           None \<Rightarrow> s
         | Some act \<Rightarrow>
             if path_empty (path s) \<and> \<not> clippathLoaded (clipStack s) then s
             else
               let m = getMatrix act;
                   pth1 = (if \<not> isIdentity m then path_transform m (path s) else path s);
                   bbox1 = (if \<not> isIdentity m \<and> xmlnode s = None
                            then BBox_transform BBox_default m else BBox_default);
                   pth2 = (case top_path (clipStack s) of
                             Some cp \<Rightarrow> if clippathLoaded (clipStack s)
                                        then path_prepend cp pth1 else pth1
                           | None \<Rightarrow> pth1);
                   (elem, bbox2) =
                     (case isDot pth2 of
                        Some point \<Rightarrow>
                          if linecap s = 1
                          then (Some (fst (stroke_circle s act point)),
                                snd (stroke_circle s act point))
                          else (None, bbox1)
                      | None \<Rightarrow>
                          (Some (stroke_path s act pth2),
                           BBox_expand (BBox_computed pth2 bbox1) (linewidth s / 2)));
                   (elem', bbox3, cs') =
                     (case (elem, top_path (clipStack s)) of
                        (Some e, Some cp) \<Rightarrow>
                          (Some (addAttribute ''clip-path'' (ClipUrl (topID (clipStack s))) e),
                           BBox_intersect bbox2 (BBox_computed cp BBox_default),
                           setClippathLoaded False (clipStack s))
                      | _ \<Rightarrow> (elem, bbox2, clipStack s))
               in (deliver elem' bbox3 (s\<lparr>clipStack := cs'\<rparr>))\<lparr>path := path_clear pth2\<rparr>)"

text \<open>Lines 548-591.\<close>

definition fill :: "real list \<Rightarrow> bool \<Rightarrow> PsSpecialHandler \<Rightarrow> PsSpecialHandler" where
  "fill p evenodd s0 =
     (let s = s0\<lparr>path := removeRedundantCommands (path s0)\<rparr>
      in case actions s of
           None \<Rightarrow> s
         | Some act \<Rightarrow>
             if path_empty (path s) \<and> \<not> clippathLoaded (clipStack s) then s
             else
               let m = getMatrix act;
                   bbox0 = BBox_computed (path s) BBox_default;
                   pth1 = (if \<not> isIdentity m then path_transform m (path s) else path s);
                   bbox1 = (if \<not> isIdentity m \<and> xmlnode s = None
                            then BBox_transform bbox0 m else bbox0);
                   pth2 = (case top_path (clipStack s) of
                             Some cp \<Rightarrow> if clippathLoaded (clipStack s)
                                        then path_prepend cp pth1 else pth1
                           | None \<Rightarrow> pth1);
                   e0 = new_XMLElementNode ''path'';
                   e1 = addAttribute ''d'' (PathData pth2) e0;
                   e2 = (case pattern s of
                           Some pat \<Rightarrow> addAttribute ''fill'' (PatternUrl pat) e1
                         | None \<Rightarrow>
                             addAttribute_if (getColor act \<noteq> BLACK \<or> savenode s \<noteq> None)
                               ''fill'' (ColorString (getColor act)) e1);
                   (e3, bbox2, cs') =
                     (case top_path (clipStack s) of
                        Some cp \<Rightarrow>
                          (addAttribute ''clip-path'' (ClipUrl (topID (clipStack s))) e2,
                           BBox_intersect bbox1 (BBox_computed cp BBox_default),
                           setClippathLoaded False (clipStack s))
                      | None \<Rightarrow> (e2, bbox1, clipStack s));
                   e4 = addAttribute_if evenodd ''fill-rule'' (Str ''evenodd'') e3;
                   e5 = addAttribute_if (opacityalpha s < 1) ''fill-opacity'' (Num (opacityalpha s)) e4
               in (deliver (Some e5) bbox2 (s\<lparr>clipStack := cs'\<rparr>))\<lparr>path := path_clear pth2\<rparr>)"

subsection \<open>Patterns\<close>

text \<open>
  Lines 669-686. \<^verbatim>\<open>_patterns\<close> is written by \<^verbatim>\<open>makepattern\<close> only (line 653), so a
  pattern ID has been registered exactly when it is in the domain of \<open>patterns\<close>.
\<close>

definition setpattern :: "real list \<Rightarrow> PsSpecialHandler \<Rightarrow> PsSpecialHandler" where
  "setpattern p s =
     (let pattern_id = static_cast_int (p ! 0);
          color = (if length p = 4 then setRGB (p ! 1) (p ! 2) (p ! 3) else BLACK)
      in case patterns s pattern_id of
           None \<Rightarrow> s\<lparr>pattern := None\<rparr>
         | Some pat \<Rightarrow>
             let pat' = (case pat of
                           PSUncoloredTilingPattern i c \<Rightarrow> PSUncoloredTilingPattern i color
                         | _ \<Rightarrow> pat);
                 s1 = s\<lparr>patterns := (patterns s)(pattern_id \<mapsto> pat'),
                        emitted := emitted s @ [ApplyPattern pat']\<rparr>
             in s1\<lparr>pattern := (case pat' of PSOtherPattern i \<Rightarrow> None | _ \<Rightarrow> Some pat')\<rparr>)"

subsection \<open>Code outside this file that clipping and shading rely on\<close>

text \<open>
  \<^verbatim>\<open>PathClipper\<close>, \<^verbatim>\<open>ShadingPatch\<close> with its subclasses, and the colour conversion of
  \<^verbatim>\<open>Color::set\<close> are not part of the source at hand. They are parameters of the model,
  collected in one record; \<open>'p\<close> is the type of patch objects.
  \<^item> \<open>intersect\<close>: the path computed by \<^verbatim>\<open>PathClipper::intersect\<close>;
  \<^item> \<open>create\<close>: \<^verbatim>\<open>ShadingPatch::create\<close>, \<open>Inl\<close> being the message of a
    \<^verbatim>\<open>ShadingException\<close>;
  \<^item> \<open>psShadingType\<close>, \<open>colorSpace\<close>, \<open>numPoints\<close>, \<open>numColors\<close>, \<open>getBBox\<close>: the
    accessors of a patch;
  \<^item> \<open>setPoints\<close>, \<open>setColors\<close>: the setters taking vectors, the edge flag and the
    previous patch, which may throw a \<^verbatim>\<open>ShadingException\<close>;
  \<^item> \<open>approximate\<close>: the segments, each a path with its colour, that \<^verbatim>\<open>approximate\<close>
    passes to the callback, in order;
  \<^item> \<open>newLattice\<close>, \<open>setPoints3\<close>, \<open>setColors3\<close>: the constructor and the three-vertex
    setters of \<^verbatim>\<open>LatticeTriangularPatch\<close>;
  \<^item> \<open>toColor\<close>: the colour that \<^verbatim>\<open>Color::set\<close> builds from the components read.
\<close>

record 'p External =
  intersect :: "Path \<Rightarrow> Path \<Rightarrow> WindingRule \<Rightarrow> Path"
  create :: "int \<Rightarrow> ColorSpace \<Rightarrow> string + 'p"
  psShadingType :: "'p \<Rightarrow> int"
  colorSpace :: "'p \<Rightarrow> ColorSpace"
  numPoints :: "'p \<Rightarrow> int \<Rightarrow> int"
  numColors :: "'p \<Rightarrow> int \<Rightarrow> int"
  getBBox :: "'p \<Rightarrow> BoundingBox"
  setPoints :: "'p \<Rightarrow> DPair list \<Rightarrow> int \<Rightarrow> 'p option \<Rightarrow> string + 'p"
  setColors :: "'p \<Rightarrow> Color list \<Rightarrow> int \<Rightarrow> 'p option \<Rightarrow> string + 'p"
  approximate :: "'p \<Rightarrow> int \<Rightarrow> bool \<Rightarrow> real \<Rightarrow> (Path \<times> Color) list"
  newLattice :: "ColorSpace \<Rightarrow> 'p"
  setPoints3 :: "'p \<Rightarrow> DPair \<Rightarrow> DPair \<Rightarrow> DPair \<Rightarrow> 'p"
  setColors3 :: "'p \<Rightarrow> Color \<Rightarrow> Color \<Rightarrow> Color \<Rightarrow> 'p"
  toColor :: "ColorSpace \<Rightarrow> real list \<Rightarrow> Color"

subsection \<open>Clipping\<close>

text \<open>
  Lines 721-763, from line 724 on: \<^verbatim>\<open>clip(Path&, bool)\<close> for the path \<open>pth\<close>, which the
  method changes in place; the result is the changed path and the new state.
\<close>

definition clip_path :: "'p External \<Rightarrow> Path \<Rightarrow> bool \<Rightarrow> PsSpecialHandler \<Rightarrow> Path \<times> PsSpecialHandler" where
  "clip_path ext pth evenodd s =
     (case actions s of
        None \<Rightarrow> (pth, s)
      | Some act \<Rightarrow>
          if path_empty pth then (pth, s)
          else
            let wr = (if evenodd then WR_EVEN_ODD else WR_NON_ZERO);
                pth1 = setWindingRule wr pth;
                pth2 = (if \<not> isIdentity (getMatrix act)
                        then path_transform (getMatrix act) pth1 else pth1);
                oldID = topID (clipStack s);
                (cs', d) =
                  (if \<not> COMPUTE_CLIPPATHS_INTERSECTIONS s \<or> oldID < 1
                   then (replace pth2 (clipStack s), PathData pth2)
                   else
                     let oldPath = the (getPath oldID (clipStack s));
                         intersectedPath = intersect ext oldPath pth2 wr
                     in (replace intersectedPath (clipStack s), PathData intersectedPath));
                pathElem = addAttribute_if evenodd ''clip-rule'' (Str ''evenodd'')
                             (addAttribute ''d'' d (new_XMLElementNode ''path''));
                newID = topID cs';
                clipElem = addAttribute_if (\<not> COMPUTE_CLIPPATHS_INTERSECTIONS s \<and> oldID \<noteq> 0)
                             ''clip-path'' (ClipUrl oldID)
                             (addAttribute ''id'' (ClipID newID) (new_XMLElementNode ''clipPath''))
            in (pth2, s\<lparr>clipStack := cs',
                        emitted := emitted s @ [ToDefs (append_child pathElem clipElem)]\<rparr>))"

text \<open>
  Line 723 runs first, always on the member \<^verbatim>\<open>_path\<close>. The operator of lines 711-713
  passes \<^verbatim>\<open>_path\<close> itself, so the changes to the argument are changes to \<^verbatim>\<open>_path\<close>;
  \<^verbatim>\<open>shfill\<close> passes a local path, which is dropped afterwards.
\<close>

definition clip :: "'p External \<Rightarrow> real list \<Rightarrow> bool \<Rightarrow> PsSpecialHandler \<Rightarrow> PsSpecialHandler" where
  "clip ext p evenodd s0 =
     (let s = s0\<lparr>path := removeRedundantCommands (path s0)\<rparr>;
          (pth', s') = clip_path ext (path s) evenodd s
      in s'\<lparr>path := pth'\<rparr>)"

definition clip_local :: "'p External \<Rightarrow> Path \<Rightarrow> bool \<Rightarrow> PsSpecialHandler \<Rightarrow> PsSpecialHandler" where
  "clip_local ext pth evenodd s0 =
     (let s = s0\<lparr>path := removeRedundantCommands (path s0)\<rparr>
      in snd (clip_path ext pth evenodd s))"

subsection \<open>Reading shading data\<close>

text \<open>
  Modelled from the spec: \<^verbatim>\<open>VectorIterator\<close> (VectorIterator.h) and \<^verbatim>\<open>Color::set\<close> are
  not part of the source at hand. The iterator walks forward over the operand vector and
  is kept as the list of the operands not yet read: it is valid while that list is not
  empty, and reading past the end throws the \<^verbatim>\<open>IteratorException\<close> that \<^verbatim>\<open>shfill\<close>
  catches at line 819 (spec 4.5, 7, 9: truncated data is signalled by an exception).
  \<^verbatim>\<open>Color::set\<close> reads as many components as the colour space has (spec 6: 1 = gray,
  3 = RGB, 4 = CMYK). \<open>NullDereference\<close> stands for the crash of a call through the null
  pointer \<^verbatim>\<open>_actions\<close>.
\<close>

datatype Exception = ShadingException string | IteratorException | NullDereference

definition it_valid :: "real list \<Rightarrow> bool" where
  "it_valid it = (it \<noteq> [])"

fun it_next :: "real list \<Rightarrow> Exception + (real \<times> real list)" where
  "it_next [] = Inl IteratorException"
| "it_next (x # it) = Inr (x, it)"

fun components :: "ColorSpace \<Rightarrow> nat" where
  "components GRAY_SPACE = 1"
| "components RGB_SPACE = 3"
| "components CMYK_SPACE = 4"

definition color_set :: "'p External \<Rightarrow> ColorSpace \<Rightarrow> real list \<Rightarrow> Exception + (Color \<times> real list)" where
  "color_set ext cs it =
     (if length it < components cs then Inl IteratorException
      else Inr (toColor ext cs (take (components cs) it), drop (components cs) it))"

text \<open>
  Lines 847-853: the loop over the vertices of a free-form triangular patch; \<open>k\<close> is the
  number of iterations left and \<open>i\<close> the loop index.
\<close>

fun read_vertices :: "'p External \<Rightarrow> ColorSpace \<Rightarrow> nat \<Rightarrow> nat \<Rightarrow> real list \<Rightarrow> DPair list \<Rightarrow> Color list
    \<Rightarrow> Exception + (DPair list \<times> Color list \<times> real list)" where
  "read_vertices ext cs 0 i it points colors = Inr (points, colors, it)"
| "read_vertices ext cs (Suc k) i it points colors =
     (case it_next (if i > 0 then drop 1 it else it) of
        Inl e \<Rightarrow> Inl e
      | Inr (x, it1) \<Rightarrow>
          (case it_next it1 of
             Inl e \<Rightarrow> Inl e
           | Inr (y, it2) \<Rightarrow>
               (case color_set ext cs it2 of
                  Inl e \<Rightarrow> Inl e
                | Inr (c, it3) \<Rightarrow>
                    read_vertices ext cs k (Suc i) it3 (points[i := (x, y)]) (colors[i := c]))))"

text \<open>Lines 859-863 and 864-865: the loops over the points and over the colours.\<close>

fun read_points :: "nat \<Rightarrow> nat \<Rightarrow> real list \<Rightarrow> DPair list \<Rightarrow> Exception + (DPair list \<times> real list)" where
  "read_points 0 i it points = Inr (points, it)"
| "read_points (Suc k) i it points =
     (case it_next it of
        Inl e \<Rightarrow> Inl e
      | Inr (x, it1) \<Rightarrow>
          (case it_next it1 of
             Inl e \<Rightarrow> Inl e
           | Inr (y, it2) \<Rightarrow> read_points k (Suc i) it2 (points[i := (x, y)])))"

fun read_colors :: "'p External \<Rightarrow> ColorSpace \<Rightarrow> nat \<Rightarrow> nat \<Rightarrow> real list \<Rightarrow> Color list
    \<Rightarrow> Exception + (Color list \<times> real list)" where
  "read_colors ext cs 0 i it colors = Inr (colors, it)"
| "read_colors ext cs (Suc k) i it colors =
     (case color_set ext cs it of
        Inl e \<Rightarrow> Inl e
      | Inr (c, it1) \<Rightarrow> read_colors ext cs k (Suc i) it1 (colors[i := c]))"

text \<open>Lines 834-867.\<close>

definition read_patch_data :: "'p External \<Rightarrow> 'p \<Rightarrow> int \<Rightarrow> real list
    \<Rightarrow> Exception + (DPair list \<times> Color list \<times> real list)" where
  "read_patch_data ext patch edgeflag it =
     (let np = nat (numPoints ext patch edgeflag);
          nc = nat (numColors ext patch edgeflag);
          points = replicate np (0, 0);
          colors = replicate nc BLACK
      in if psShadingType ext patch = 4
         then read_vertices ext (colorSpace ext patch) np 0 it points colors
         else if psShadingType ext patch = 6 \<or> psShadingType ext patch = 7
         then (case read_points np 0 it points of
                 Inl e \<Rightarrow> Inl e
               | Inr (points', it1) \<Rightarrow>
                   (case read_colors ext (colorSpace ext patch) nc 0 it1 colors of
                      Inl e \<Rightarrow> Inl e
                    | Inr (colors', it2) \<Rightarrow> Inr (points', colors', it2)))
         else Inr (points, colors, it))"

subsection \<open>Drawing shading patches\<close>

text \<open>
  Lines 870-899, the class \<^verbatim>\<open>ShadingCallback\<close>. Its constructor appends the group element
  to the container node or to the page; \<^verbatim>\<open>patchSegment\<close> appends one filled path to the
  group.
\<close>

definition ShadingCallback :: "PsSpecialHandler \<Rightarrow> Exception + PsSpecialHandler" where
  "ShadingCallback s =
     (let clippathID = topID (clipStack s);
          g = addAttribute_if (clippathID > 0) ''clip-path'' (ClipUrl clippathID)
                (new_XMLElementNode ''g'')
      in case xmlnode s of
           Some n \<Rightarrow> Inr (s\<lparr>emitted := emitted s @ [ToNode n g]\<rparr>)
         | None \<Rightarrow>
             (case actions s of
                None \<Rightarrow> Inl NullDereference
              | Some act \<Rightarrow> Inr (s\<lparr>emitted := emitted s @ [ToPage g]\<rparr>)))"

definition patchSegment :: "Path \<times> Color \<Rightarrow> PsSpecialHandler \<Rightarrow> Exception + PsSpecialHandler" where
  "patchSegment seg s =
     (case actions s of
        None \<Rightarrow> Inl NullDereference
      | Some act \<Rightarrow>
          let pth = (if \<not> isIdentity (getMatrix act)
                     then path_transform (getMatrix act) (fst seg) else fst seg);
              pathElem = addAttribute ''fill'' (ColorString (snd seg))
                           (addAttribute ''d'' (PathData pth) (new_XMLElementNode ''path''))
          in Inr (s\<lparr>emitted := emitted s @ [ToGroup pathElem]\<rparr>))"

text \<open>The calls of \<^verbatim>\<open>patchSegment\<close> that one call of \<^verbatim>\<open>approximate\<close> makes.\<close>

fun patchSegments :: "(Path \<times> Color) list \<Rightarrow> PsSpecialHandler \<Rightarrow> Exception option \<times> PsSpecialHandler" where
  "patchSegments [] s = (None, s)"
| "patchSegments (seg # segs) s =
     (case patchSegment seg s of
        Inl e \<Rightarrow> (Some e, s)
      | Inr s' \<Rightarrow> patchSegments segs s')"

definition approximate_patch :: "'p External \<Rightarrow> 'p \<Rightarrow> PsSpecialHandler \<Rightarrow> Exception option \<times> PsSpecialHandler" where
  "approximate_patch ext patch s =
     patchSegments
       (approximate ext patch (SHADING_SEGMENT_SIZE s) (SHADING_SEGMENT_OVERLAP s)
          (SHADING_SIMPLIFY_DELTA s)) s"

text \<open>Lines 912-915: a patch is created, its data is read and set.\<close>

definition read_patch :: "'p External \<Rightarrow> int \<Rightarrow> ColorSpace \<Rightarrow> int \<Rightarrow> real list \<Rightarrow> 'p option
    \<Rightarrow> Exception + ('p \<times> real list)" where
  "read_patch ext shadingTypeID cs edgeflag it previousPatch =
     (case create ext shadingTypeID cs of
        Inl msg \<Rightarrow> Inl (ShadingException msg)
      | Inr patch0 \<Rightarrow>
          (case read_patch_data ext patch0 edgeflag it of
             Inl e \<Rightarrow> Inl e
           | Inr (points, colors, it') \<Rightarrow>
               (case setPoints ext patch0 points edgeflag previousPatch of
                  Inl msg \<Rightarrow> Inl (ShadingException msg)
                | Inr patch1 \<Rightarrow>
                    (case setColors ext patch1 colors edgeflag previousPatch of
                       Inl msg \<Rightarrow> Inl (ShadingException msg)
                     | Inr patch \<Rightarrow> Inr (patch, it')))))"

text \<open>Lines 916-932: the patch is drawn and its bounding box is passed to the host.\<close>

definition draw_patch :: "'p External \<Rightarrow> 'p \<Rightarrow> PsSpecialHandler \<Rightarrow> Exception option \<times> PsSpecialHandler" where
  "draw_patch ext patch s =
     (case ShadingCallback s of
        Inl e \<Rightarrow> (Some e, s)
      | Inr s1 \<Rightarrow>
          (case approximate_patch ext patch s1 of
             (Some e, s2) \<Rightarrow> (Some e, s2)
           | (None, s2) \<Rightarrow>
               if xmlnode s2 = None then
                 (case actions s2 of
                    None \<Rightarrow> (Some NullDereference, s2)
                  | Some act \<Rightarrow>
                      (None, s2\<lparr>emitted := emitted s2 @
                         [Embed (BBox_transform (getBBox ext patch) (getMatrix act))]\<rparr>))
               else (None, s2)))"

text \<open>
  Lines 904-935. The result is the exception that ends the loop, if any, and the state
  reached.
\<close>

function processSequentialPatchMesh :: "'p External \<Rightarrow> int \<Rightarrow> ColorSpace \<Rightarrow> real list \<Rightarrow> 'p option
    \<Rightarrow> PsSpecialHandler \<Rightarrow> Exception option \<times> PsSpecialHandler" where
  "processSequentialPatchMesh ext shadingTypeID cs it previousPatch s =
     (case it of
        [] \<Rightarrow> (None, s)
      | ef # it1 \<Rightarrow>
          (case read_patch ext shadingTypeID cs (static_cast_int ef) it1 previousPatch of
             Inl e \<Rightarrow> (Some e, s)
           | Inr (patch, it2) \<Rightarrow>
               (case draw_patch ext patch s of
                  (Some e, s') \<Rightarrow> (Some e, s')
                | (None, s') \<Rightarrow>
                    processSequentialPatchMesh ext shadingTypeID cs it2 (Some patch) s')))"
  by pat_completeness auto
termination
proof (relation "measure (\<lambda>(ext, shadingTypeID, cs, it, previousPatch, s). length it)")
  show "wf (measure (\<lambda>(ext :: 'p External, shadingTypeID :: int, cs :: ColorSpace, it :: real list,
            previousPatch :: 'p option, s :: PsSpecialHandler). length it))"
    by simp
next
  fix ext :: "'p External" and shadingTypeID :: int and cs :: ColorSpace and it :: "real list"
    and previousPatch :: "'p option" and s :: PsSpecialHandler and ef it1 x patch it2
  assume it: "it = ef # it1"
    and rd: "read_patch ext shadingTypeID cs (static_cast_int ef) it1 previousPatch = Inr x"
    and x: "(patch, it2) = x"
  have col: "\<And>c a b r. color_set ext c a = Inr (b, r) \<Longrightarrow> length r \<le> length a"
    by (auto simp: color_set_def split: if_splits)
  have nxt: "\<And>a v r. it_next a = Inr (v, r) \<Longrightarrow> length r \<le> length a"
    by (case_tac a) auto
  have rv: "\<And>c k i a ps cls ps' cls' r.
      read_vertices ext c k i a ps cls = Inr (ps', cls', r) \<Longrightarrow> length r \<le> length a"
  proof -
    fix c k i a ps cls ps' cls' r
    show "read_vertices ext c k i a ps cls = Inr (ps', cls', r) \<Longrightarrow> length r \<le> length a"
    proof (induction k arbitrary: i a ps cls)
      case 0
      then show ?case by simp
    next
      case (Suc k)
      from Suc.prems obtain x1 a1 y1 a2 c1 a3 where
        1: "it_next (if i > 0 then drop 1 a else a) = Inr (x1, a1)" and
        2: "it_next a1 = Inr (y1, a2)" and
        3: "color_set ext c a2 = Inr (c1, a3)" and
        4: "read_vertices ext c k (Suc i) a3 (ps[i := (x1, y1)]) (cls[i := c1]) = Inr (ps', cls', r)"
        by (auto split: sum.splits)
      have "length r \<le> length a3" using Suc.IH [OF 4] .
      also have "\<dots> \<le> length a2" using col [OF 3] .
      also have "\<dots> \<le> length a1" using nxt [OF 2] .
      also have "\<dots> \<le> length (if i > 0 then drop 1 a else a)" using nxt [OF 1] .
      also have "\<dots> \<le> length a" by simp
      finally show ?case .
    qed
  qed
  have rp: "\<And>k i a ps ps' r. read_points k i a ps = Inr (ps', r) \<Longrightarrow> length r \<le> length a"
  proof -
    fix k i a ps ps' r
    show "read_points k i a ps = Inr (ps', r) \<Longrightarrow> length r \<le> length a"
    proof (induction k arbitrary: i a ps)
      case 0
      then show ?case by simp
    next
      case (Suc k)
      from Suc.prems obtain x1 a1 y1 a2 where
        1: "it_next a = Inr (x1, a1)" and
        2: "it_next a1 = Inr (y1, a2)" and
        4: "read_points k (Suc i) a2 (ps[i := (x1, y1)]) = Inr (ps', r)"
        by (auto split: sum.splits)
      have "length r \<le> length a2" using Suc.IH [OF 4] .
      also have "\<dots> \<le> length a1" using nxt [OF 2] .
      also have "\<dots> \<le> length a" using nxt [OF 1] .
      finally show ?case .
    qed
  qed
  have rc: "\<And>c k i a cls cls' r. read_colors ext c k i a cls = Inr (cls', r) \<Longrightarrow> length r \<le> length a"
  proof -
    fix c k i a cls cls' r
    show "read_colors ext c k i a cls = Inr (cls', r) \<Longrightarrow> length r \<le> length a"
    proof (induction k arbitrary: i a cls)
      case 0
      then show ?case by simp
    next
      case (Suc k)
      from Suc.prems obtain c1 a1 where
        1: "color_set ext c a = Inr (c1, a1)" and
        4: "read_colors ext c k (Suc i) a1 (cls[i := c1]) = Inr (cls', r)"
        by (auto split: sum.splits)
      have "length r \<le> length a1" using Suc.IH [OF 4] .
      also have "\<dots> \<le> length a" using col [OF 1] .
      finally show ?case .
    qed
  qed
  have "length it2 \<le> length it1"
    using rd x [symmetric]
    by (auto simp: read_patch_def read_patch_data_def Let_def split: sum.splits if_splits
        dest!: rv rp rc)
  then show "((ext, shadingTypeID, cs, it2, Some patch, x2), ext, shadingTypeID, cs, it, previousPatch, s)
      \<in> measure (\<lambda>(ext, shadingTypeID, cs, it, previousPatch, s). length it)" for x2
    using it by simp
qed

text \<open>
  Lines 938-941 and 955-960, 965-970: a vertex of the lattice, and the loop that reads a
  row of \<open>k\<close> further vertices into the vector \<open>row\<close>, starting at index \<open>i\<close>.
\<close>

record PatchVertex =
  point :: DPair
  color :: Color

definition new_PatchVertex :: PatchVertex where
  "new_PatchVertex = \<lparr>point = (0, 0), color = BLACK\<rparr>"

fun read_row :: "'p External \<Rightarrow> ColorSpace \<Rightarrow> nat \<Rightarrow> nat \<Rightarrow> real list \<Rightarrow> PatchVertex list
    \<Rightarrow> Exception + (PatchVertex list \<times> real list)" where
  "read_row ext cs 0 i it row = Inr (row, it)"
| "read_row ext cs (Suc k) i it row =
     (case it_next it of
        Inl e \<Rightarrow> Inl e
      | Inr (x, it1) \<Rightarrow>
          (case it_next it1 of
             Inl e \<Rightarrow> Inl e
           | Inr (y, it2) \<Rightarrow>
               (case color_set ext cs it2 of
                  Inl e \<Rightarrow> Inl e
                | Inr (c, it3) \<Rightarrow>
                    read_row ext cs k (Suc i) it3 (row[i := \<lparr>point = (x, y), color = c\<rparr>]))))"

text \<open>
  Lines 972-982: the two triangles of each cell between two rows; \<open>k\<close> is the number of
  iterations left and \<open>i\<close> the loop index. The patch object is reused.
\<close>

fun lattice_triangles :: "'p External \<Rightarrow> 'p \<Rightarrow> nat \<Rightarrow> nat \<Rightarrow> PatchVertex list \<Rightarrow> PatchVertex list
    \<Rightarrow> PsSpecialHandler \<Rightarrow> Exception option \<times> 'p \<times> PsSpecialHandler" where
  "lattice_triangles ext patch 0 i row1 row2 s = (None, patch, s)"
| "lattice_triangles ext patch (Suc k) i row1 row2 s =
     (let v1 = row1 ! i; v2 = row1 ! (i + 1);
          v3 = row2 ! i; v4 = row2 ! (i + 1);
          patch1 = setColors3 ext (setPoints3 ext patch (point v1) (point v2) (point v3))
                     (color v1) (color v2) (color v3)
      in case approximate_patch ext patch1 s of
           (Some e, s1) \<Rightarrow> (Some e, patch1, s1)
         | (None, s1) \<Rightarrow>
             let patch2 = setColors3 ext (setPoints3 ext patch1 (point v2) (point v3) (point v4))
                            (color v2) (color v3) (color v4)
             in case approximate_patch ext patch2 s1 of
                  (Some e, s2) \<Rightarrow> (Some e, patch2, s2)
                | (None, s2) \<Rightarrow> lattice_triangles ext patch2 k (Suc i) row1 row2 s2)"

text \<open>
  Lines 963-984: the loop over the rows. It is entered with at least two vertices per row
  only (line 946); the test is repeated in the loop condition, which makes the termination
  evident.
\<close>

function lattice_rows :: "'p External \<Rightarrow> ColorSpace \<Rightarrow> nat \<Rightarrow> 'p \<Rightarrow> PatchVertex list \<Rightarrow> PatchVertex list
    \<Rightarrow> real list \<Rightarrow> PsSpecialHandler \<Rightarrow> Exception option \<times> PsSpecialHandler" where
  "lattice_rows ext cs verticesPerRow patch row1 row2 it s =
     (if it_valid it \<and> 2 \<le> verticesPerRow then
        (case read_row ext cs verticesPerRow 0 it row2 of
           Inl e \<Rightarrow> (Some e, s)
         | Inr (row2', it') \<Rightarrow>
             (case lattice_triangles ext patch (verticesPerRow - 1) 0 row1 row2' s of
                (Some e, patch', s') \<Rightarrow> (Some e, s')
              | (None, patch', s') \<Rightarrow>
                  lattice_rows ext cs verticesPerRow patch' row2' row1 it' s'))
      else (None, s))"
  by pat_completeness auto
termination
proof (relation "measure (\<lambda>(ext, cs, verticesPerRow, patch, row1, row2, it, s). length it)")
  show "wf (measure (\<lambda>(ext :: 'p External, cs :: ColorSpace, verticesPerRow :: nat, patch :: 'p,
            row1 :: PatchVertex list, row2 :: PatchVertex list, it :: real list,
            s :: PsSpecialHandler). length it))"
    by simp
next
  fix ext :: "'p External" and cs :: ColorSpace and verticesPerRow :: nat and patch :: 'p
    and row1 row2 :: "PatchVertex list" and it :: "real list" and s :: PsSpecialHandler
    and x row2' it' y patch' z s'
  assume guard: "it_valid it \<and> 2 \<le> verticesPerRow"
    and rd: "read_row ext cs verticesPerRow 0 it row2 = Inr x"
    and x: "(row2', it') = x"
  have nxt: "\<And>a v r. it_next a = Inr (v, r) \<Longrightarrow> length r < length a"
    by (case_tac a) auto
  have rr: "\<And>k i a row row' r. read_row ext cs k i a row = Inr (row', r) \<Longrightarrow> length r \<le> length a"
  proof -
    fix k i a row row' r
    show "read_row ext cs k i a row = Inr (row', r) \<Longrightarrow> length r \<le> length a"
    proof (induction k arbitrary: i a row)
      case 0
      then show ?case by simp
    next
      case (Suc k)
      from Suc.prems obtain x1 a1 y1 a2 c1 a3 where
        1: "it_next a = Inr (x1, a1)" and
        2: "it_next a1 = Inr (y1, a2)" and
        3: "color_set ext cs a2 = Inr (c1, a3)" and
        4: "read_row ext cs k (Suc i) a3 (row[i := \<lparr>point = (x1, y1), color = c1\<rparr>]) = Inr (row', r)"
        by (auto split: sum.splits)
      have "length r \<le> length a3" using Suc.IH [OF 4] .
      also have "\<dots> \<le> length a2" using 3 by (auto simp: color_set_def split: if_splits)
      also have "\<dots> \<le> length a1" using nxt [OF 2] by simp
      also have "\<dots> \<le> length a" using nxt [OF 1] by simp
      finally show ?case .
    qed
  qed
  obtain k where k: "verticesPerRow = Suc k" using guard by (cases verticesPerRow) auto
  from rd x [symmetric] obtain x1 a1 y1 a2 c1 a3 where
    1: "it_next it = Inr (x1, a1)" and
    4: "read_row ext cs k (Suc 0) a3 (row2[0 := \<lparr>point = (x1, y1), color = c1\<rparr>]) = Inr (row2', it')"
    and "length a3 \<le> length a1"
    unfolding k by (auto simp: color_set_def split: sum.splits if_splits dest!: nxt)
  then have "length it' < length it" using rr [OF 4] nxt [OF 1] by simp
  then show "((ext, cs, verticesPerRow, patch', row2', row1, it', s'), ext, cs, verticesPerRow, patch,
        row1, row2, it, s)
      \<in> measure (\<lambda>(ext, cs, verticesPerRow, patch, row1, row2, it, s). length it)"
    by simp
qed

text \<open>The equations of the two loops are unfolded by hand, not by the simplifier.\<close>

declare processSequentialPatchMesh.simps [simp del]

declare lattice_rows.simps [simp del]

text \<open>Lines 944-985.\<close>

definition processLatticeTriangularPatchMesh :: "'p External \<Rightarrow> ColorSpace \<Rightarrow> real list \<Rightarrow> PsSpecialHandler
    \<Rightarrow> Exception option \<times> PsSpecialHandler" where
  "processLatticeTriangularPatchMesh ext cs it s =
     (case it_next it of
        Inl e \<Rightarrow> (Some e, s)
      | Inr (v, it1) \<Rightarrow>
          let verticesPerRow = static_cast_int v
          in if verticesPerRow < 2 then (None, s)
             else
               let n = nat verticesPerRow;
                   row1 = replicate n new_PatchVertex;
                   row2 = replicate n new_PatchVertex
               in case read_row ext cs n 0 it1 row1 of
                    Inl e \<Rightarrow> (Some e, s)
                  | Inr (row1', it2) \<Rightarrow>
                      let patch = newLattice ext cs
                      in case ShadingCallback s of
                           Inl e \<Rightarrow> (Some e, s)
                         | Inr s1 \<Rightarrow> lattice_rows ext cs n patch row1' row2 it2 s1)"

subsection \<open>The operator shfill\<close>

text \<open>
  Lines 778-808: the data common to all shading types is read, and the clipping rectangle
  is set if there is one. An exception thrown here is not caught by \<^verbatim>\<open>shfill\<close>.
\<close>

definition to_ColorSpace :: "int \<Rightarrow> ColorSpace" where
  "to_ColorSpace c = (if c = 1 then GRAY_SPACE else if c = 3 then RGB_SPACE
                      else if c = 4 then CMYK_SPACE else RGB_SPACE)"

definition bbox_clip :: "'p External \<Rightarrow> real list \<Rightarrow> PsSpecialHandler
    \<Rightarrow> Exception + (PsSpecialHandler \<times> real list)" where
  "bbox_clip ext it s =
     (case it of
        x1 # y1 # x2 # y2 # it' \<Rightarrow>
          let bboxPath = path_closepath (path_lineto x1 y2 (path_lineto x2 y2
                           (path_lineto x2 y1 (path_moveto x1 y1 new_Path))))
          in Inr (clip_local ext bboxPath False s, it')
      | _ \<Rightarrow> Inl IteratorException)"

definition shfill_header :: "'p External \<Rightarrow> real list \<Rightarrow> PsSpecialHandler
    \<Rightarrow> Exception + (int \<times> ColorSpace \<times> bool \<times> real list \<times> PsSpecialHandler)" where
  "shfill_header ext params s =
     (let shadingTypeID = static_cast_int (params ! 0);
          cspace = to_ColorSpace (static_cast_int (params ! 1));
          it = drop 2 params
      in case it_next it of
           Inl e \<Rightarrow> Inl e
         | Inr (bg, it1) \<Rightarrow>
             (case (if bg \<noteq> 0 then color_set ext cspace it1 else Inr (BLACK, it1)) of
                Inl e \<Rightarrow> Inl e
              | Inr (bgcolor, it2) \<Rightarrow>
                  (case it_next it2 of
                     Inl e \<Rightarrow> Inl e
                   | Inr (bb, it3) \<Rightarrow>
                       if bb \<noteq> 0 then
                         (case bbox_clip ext it3 s of
                            Inl e \<Rightarrow> Inl e
                          | Inr (s1, it4) \<Rightarrow> Inr (shadingTypeID, cspace, True, it4, s1))
                       else Inr (shadingTypeID, cspace, False, it3, s))))"

text \<open>Lines 810-813.\<close>

definition process_mesh :: "'p External \<Rightarrow> int \<Rightarrow> ColorSpace \<Rightarrow> real list \<Rightarrow> PsSpecialHandler
    \<Rightarrow> Exception option \<times> PsSpecialHandler" where
  "process_mesh ext shadingTypeID cs it s =
     (if shadingTypeID = 5 then processLatticeTriangularPatchMesh ext cs it s
      else processSequentialPatchMesh ext shadingTypeID cs it None s)"

definition estream :: "string \<Rightarrow> PsSpecialHandler \<Rightarrow> PsSpecialHandler" where
  "estream msg s = s\<lparr>messages := messages s @ [msg]\<rparr>"

definition incomplete_shading_data :: string where
  "incomplete_shading_data = ''PostScript error: incomplete shading data'' @ [CHR 0x0A]"

text \<open>
  Lines 773-824. \<open>Inl\<close> is an exception that leaves \<^verbatim>\<open>shfill\<close>; the two handlers write
  to the error stream and go on to line 822.
\<close>

definition shfill :: "'p External \<Rightarrow> real list \<Rightarrow> PsSpecialHandler \<Rightarrow> Exception + PsSpecialHandler" where
  "shfill ext params s =
     (if length params < 9 then Inr s
      else
        case shfill_header ext params s of
          Inl e \<Rightarrow> Inl e
        | Inr (shadingTypeID, cspace, bboxGiven, it, s1) \<Rightarrow>
            (case (case process_mesh ext shadingTypeID cspace it s1 of
                     (None, s2) \<Rightarrow> Inr s2
                   | (Some (ShadingException msg), s2) \<Rightarrow>
                       Inr (estream (''PostScript error: '' @ msg @ [CHR 0x0A]) s2)
                   | (Some IteratorException, s2) \<Rightarrow> Inr (estream incomplete_shading_data s2)
                   | (Some NullDereference, s2) \<Rightarrow> Inl NullDereference) of
               Inl e \<Rightarrow> Inl e
             | Inr s3 \<Rightarrow>
                 Inr (if bboxGiven then s3\<lparr>clipStack := pop (-1) False (clipStack s3)\<rparr> else s3)))"

subsection \<open>Truncated patch data\<close>

text \<open>
  The number of operands that \<^verbatim>\<open>read_patch_data\<close> reads after the edge flag of a patch
  (lines 847-865): for every vertex of a triangle two coordinates and a colour, and an
  edge flag before every vertex but the first; for a Coons or tensor-product patch two
  coordinates for every point and then the colours. A row of a lattice mesh has two
  coordinates and a colour for each of its vertices (lines 955-960 and 965-970).
\<close>

definition record_length :: "'p External \<Rightarrow> 'p \<Rightarrow> int \<Rightarrow> nat" where
  "record_length ext patch edgeflag =
     (let np = nat (numPoints ext patch edgeflag);
          nc = nat (numColors ext patch edgeflag);
          c = components (colorSpace ext patch)
      in if psShadingType ext patch = 4 then np * (2 + c) + (np - 1)
         else if psShadingType ext patch = 6 \<or> psShadingType ext patch = 7 then 2 * np + nc * c
         else 0)"

text \<open>
  The patch data of a truncated operand list: complete records \<open>whole\<close>, followed by
  operands \<open>partial\<close> that begin a record and end before the record does. In a
  sequential mesh (lines 904-935) a record is an edge flag and the data of a patch that
  can be created. In a lattice mesh (lines 944-985) of at least two vertices per row the
  records are the number of vertices per row with the first row, and then every further
  row; the operands may end before that number, in the first row, or in a later row that
  has begun.
\<close>

definition incomplete_record :: "'p External \<Rightarrow> int \<Rightarrow> ColorSpace \<Rightarrow> real list \<Rightarrow> real list \<Rightarrow> bool" where
  "incomplete_record ext shadingTypeID cs whole partial =
     (if shadingTypeID = 5 then
        (case whole of
           [] \<Rightarrow>
             (case partial of
                [] \<Rightarrow> True
              | v # rest \<Rightarrow> 2 \<le> static_cast_int v \<and>
                  length rest < nat (static_cast_int v) * (2 + components cs))
         | v # rows \<Rightarrow> 2 \<le> static_cast_int v \<and> partial \<noteq> [] \<and>
             length partial < nat (static_cast_int v) * (2 + components cs))
      else
        (case partial of
           [] \<Rightarrow> False
         | ef # rest \<Rightarrow>
             (case create ext shadingTypeID cs of
                Inl msg \<Rightarrow> False
              | Inr patch \<Rightarrow> length rest < record_length ext patch (static_cast_int ef))))"

text \<open>
  The mesh loops run on the complete records alone; without a complete record nothing is
  run.
\<close>

definition complete_records :: "'p External \<Rightarrow> int \<Rightarrow> ColorSpace \<Rightarrow> real list \<Rightarrow> PsSpecialHandler
    \<Rightarrow> Exception option \<times> PsSpecialHandler" where
  "complete_records ext shadingTypeID cs whole s =
     (if whole = [] then (None, s) else process_mesh ext shadingTypeID cs whole s)"

subsection \<open>An instance of the outside code\<close>

text \<open>
  To evaluate the model on concrete operands, the parameters are instantiated with simple
  functions. A patch is its shading type, its colour space, its points and its colours.
  The numbers of points and colours follow the comments at lines 843-846 and 856-858:
  a triangle has 3 vertices or 1 new vertex, a Coons patch 12 or 8 points and a tensor
  product patch 16 or 12 points, each with 4 or 2 colours. A patch with a positive edge
  flag needs a previous patch (spec 3). Every patch is approximated by one segment,
  its outline in its first colour.
\<close>

type_synonym SimplePatch = "int \<times> ColorSpace \<times> DPair list \<times> Color list"

definition outline :: "DPair list \<Rightarrow> Path" where
  "outline ps =
     \<lparr>commands = (case ps of [] \<Rightarrow> [] | q # qs \<Rightarrow> MoveTo q # map LineTo qs @ [ClosePath]),
      windingRule = WR_NON_ZERO\<rparr>"

definition simple_numPoints :: "SimplePatch \<Rightarrow> int \<Rightarrow> int" where
  "simple_numPoints patch edgeflag =
     (if fst patch = 4 then (if edgeflag = 0 then 3 else 1)
      else if fst patch = 6 then (if edgeflag = 0 then 12 else 8)
      else if fst patch = 7 then (if edgeflag = 0 then 16 else 12)
      else 0)"

definition simple_numColors :: "SimplePatch \<Rightarrow> int \<Rightarrow> int" where
  "simple_numColors patch edgeflag =
     (if fst patch = 4 then (if edgeflag = 0 then 3 else 1)
      else if fst patch = 6 \<or> fst patch = 7 then (if edgeflag = 0 then 4 else 2)
      else 0)"

definition simple_toColor :: "ColorSpace \<Rightarrow> real list \<Rightarrow> Color" where
  "simple_toColor cs comps =
     (case comps of
        [g] \<Rightarrow> RGB g g g
      | [r, g, b] \<Rightarrow> RGB r g b
      | [c, m, y, k] \<Rightarrow> RGB ((1 - c) * (1 - k)) ((1 - m) * (1 - k)) ((1 - y) * (1 - k))
      | _ \<Rightarrow> BLACK)"

definition simple_ext :: "SimplePatch External" where
  "simple_ext =
     \<lparr>intersect = (\<lambda>old new wr. new\<lparr>windingRule := wr\<rparr>),
      create = (\<lambda>t cs. if t = 4 \<or> t = 6 \<or> t = 7 then Inr (t, cs, [], [])
                        else Inl ''patch type not supported''),
      psShadingType = fst,
      colorSpace = (\<lambda>patch. fst (snd patch)),
      numPoints = simple_numPoints,
      numColors = simple_numColors,
      getBBox = (\<lambda>patch. BBox_computed (outline (fst (snd (snd patch)))) BBox_default),
      setPoints = (\<lambda>patch ps edgeflag prev.
                     if edgeflag > 0 \<and> prev = None then Inl ''missing preceding data''
                     else Inr (fst patch, fst (snd patch), ps, snd (snd (snd patch)))),
      setColors = (\<lambda>patch cls edgeflag prev.
                     if edgeflag > 0 \<and> prev = None then Inl ''missing preceding data''
                     else Inr (fst patch, fst (snd patch), fst (snd (snd patch)), cls)),
      approximate = (\<lambda>patch size overlap delta.
                       [(outline (fst (snd (snd patch))),
                         (case snd (snd (snd patch)) of [] \<Rightarrow> BLACK | c # cls \<Rightarrow> c))]),
      newLattice = (\<lambda>cs. (5, cs, [], [])),
      setPoints3 = (\<lambda>patch p1 p2 p3. (fst patch, fst (snd patch), [p1, p2, p3], snd (snd (snd patch)))),
      setColors3 = (\<lambda>patch c1 c2 c3. (fst patch, fst (snd patch), fst (snd (snd patch)), [c1, c2, c3])),
      toColor = simple_toColor\<rparr>"

text \<open>A host with the identity matrix and the colour black.\<close>

definition simple_actions :: SpecialActions where
  "simple_actions = \<lparr>getMatrix = identity_matrix, getColor = BLACK\<rparr>"

text \<open>A host with the colour red, and a state with a closed path and an active pattern.\<close>

definition red_actions :: SpecialActions where
  "red_actions = \<lparr>getMatrix = identity_matrix, getColor = RGB 1 0 0\<rparr>"

definition pattern_state :: PsSpecialHandler where
  "pattern_state =
     (initialize (Some red_actions))
       \<lparr>path := path_closepath (path_lineto 0 5 (path_lineto 5 0 (path_moveto 0 0 new_Path))),
        pattern := Some (PSColoredTilingPattern 1),
        patterns := [1 \<mapsto> PSColoredTilingPattern 1]\<rparr>"


text \<open>
  \<open>extends s s'\<close>: the state \<open>s'\<close> is \<open>s\<close> with further output appended, and nothing else
  changed.
\<close>

definition extends :: "PsSpecialHandler \<Rightarrow> PsSpecialHandler \<Rightarrow> bool" where
  "extends s s' = (\<exists>out. s' = s\<lparr>emitted := emitted s @ out\<rparr>)"

text \<open>
  Operands of \<^verbatim>\<open>shfill\<close>: a free-form triangular mesh (type 4) in gray with the clipping
  rectangle (0,0)-(10,10) and one triangle; and a mesh without clipping rectangle whose
  second triangle breaks off after the coordinates of its first vertex.
\<close>

definition triangle_mesh :: "real list" where
  "triangle_mesh = [4, 1, 0, 1, 0, 0, 10, 10,  0, 1, 1, 0.5,  0, 9, 1, 0.5,  0, 5, 9, 0.5]"

definition truncated_mesh :: "real list" where
  "truncated_mesh = [4, 1, 0, 0,  0, 1, 1, 0.5,  0, 9, 1, 0.5,  0, 5, 9, 0.5,  0, 7, 8]"

text \<open>
  Operands of a lattice mesh (type 5) in gray with two vertices per row: the first row is
  complete, and the second row breaks off after the coordinates of its first vertex.
\<close>

definition truncated_lattice :: "real list" where
  "truncated_lattice = [5, 1, 0, 0,  2,  0, 0, 0.5,  1, 0, 0.5,  0, 1]"

text \<open>The elements handed over by a sequence of calls.\<close>

fun element_of :: "Output \<Rightarrow> XMLElementNode option" where
  "element_of (ToPage e) = Some e"
| "element_of (ToDefs e) = Some e"
| "element_of (ToNode n e) = Some e"
| "element_of (ToGroup e) = Some e"
| "element_of (Embed b) = None"
| "element_of (ApplyPattern pat) = None"

definition elements :: "Output list \<Rightarrow> XMLElementNode list" where
  "elements out = List.map_filter element_of out"

section \<open>Properties\<close>

subsection \<open>Transformations\<close>

lemmas static_cast_int_unfold = static_cast_int_def trunc_def INT_MIN_def INT_MAX_def

lemma static_cast_int_in_range:
  assumes "0 \<le> x" and "x < 2147483648"
  shows "static_cast_int x = \<lfloor>x\<rfloor>" and "0 \<le> static_cast_int x"
proof -
  have "0 \<le> \<lfloor>x\<rfloor>" using assms(1) by simp
  moreover have "\<lfloor>x\<rfloor> < 2147483648" using assms(2) by (simp add: floor_less_iff)
  ultimately show "static_cast_int x = \<lfloor>x\<rfloor>" and "0 \<le> static_cast_int x"
    using assms(1) by (simp_all add: static_cast_int_unfold)
qed

lemma mat_mult_identity_right: "mat_mult m identity_matrix = m"
  by (cases m) (simp add: identity_matrix_def)


text \<open>
  Claim C1. For every current transformation matrix \<open>M\<close> of the host, the operators
  \<^verbatim>\<open>scale(a,b)\<close>, \<^verbatim>\<open>translate(c,d)\<close> and \<^verbatim>\<open>rotate(angle)\<close> set the matrix to the product
  \<open>\<Delta> \<cdot> M\<close> with the elementary matrix \<open>\<Delta>\<close> on the left, and change nothing else. Starting
  from the identity, \<^verbatim>\<open>scale(a,b)\<close> followed by \<^verbatim>\<open>translate(c,d)\<close> yields the matrix
  \<open>T(c,d) \<cdot> S(a,b)\<close>, whose entries are \<open>((a,0,c),(0,b,d),(0,0,1))\<close>.
\<close>

theorem transforms_left_multiply:
  assumes "actions s = Some act"
  shows "scale [a, b] s =
           s\<lparr>actions := Some (act\<lparr>getMatrix := mat_mult (ScalingMatrix a b) (getMatrix act)\<rparr>)\<rparr> \<and>
         translate [c, d] s =
           s\<lparr>actions := Some (act\<lparr>getMatrix := mat_mult (TranslationMatrix c d) (getMatrix act)\<rparr>)\<rparr> \<and>
         rotate_op [angle] s =
           s\<lparr>actions := Some (act\<lparr>getMatrix := mat_mult (RotationMatrix angle) (getMatrix act)\<rparr>)\<rparr> \<and>
         (getMatrix act = identity_matrix \<longrightarrow>
            translate [c, d] (scale [a, b] s) =
              s\<lparr>actions := Some (act\<lparr>getMatrix :=
                   mat_mult (TranslationMatrix c d) (ScalingMatrix a b)\<rparr>)\<rparr> \<and>
            mat_mult (TranslationMatrix c d) (ScalingMatrix a b) = Matrix a 0 c  0 b d  0 0 1)"
proof -
  have 1: "scale [a, b] s =
      s\<lparr>actions := Some (act\<lparr>getMatrix := mat_mult (ScalingMatrix a b) (getMatrix act)\<rparr>)\<rparr>"
    using assms by (simp add: scale_def lmultiply_def setMatrix_def)
  have 2: "translate [c, d] s =
      s\<lparr>actions := Some (act\<lparr>getMatrix := mat_mult (TranslationMatrix c d) (getMatrix act)\<rparr>)\<rparr>"
    using assms by (simp add: translate_def lmultiply_def setMatrix_def)
  have 3: "rotate_op [angle] s =
      s\<lparr>actions := Some (act\<lparr>getMatrix := mat_mult (RotationMatrix angle) (getMatrix act)\<rparr>)\<rparr>"
    using assms by (simp add: rotate_op_def lmultiply_def setMatrix_def)
  have 4: "translate [c, d] (scale [a, b] s) =
      s\<lparr>actions := Some (act\<lparr>getMatrix := mat_mult (TranslationMatrix c d) (ScalingMatrix a b)\<rparr>)\<rparr>"
    if "getMatrix act = identity_matrix"
    unfolding 1 using that
    by (simp add: translate_def lmultiply_def setMatrix_def mat_mult_identity_right)
  have 5: "mat_mult (TranslationMatrix c d) (ScalingMatrix a b) = Matrix a 0 c  0 b d  0 0 1"
    by (simp add: TranslationMatrix_def ScalingMatrix_def)
  from 1 2 3 4 5 show ?thesis by blast
qed

theorem transforms_left_multiply_witness:
  "actions (initialize (Some simple_actions)) = Some simple_actions \<and>
   getMatrix simple_actions = identity_matrix \<and>
   translate [5, 7] (scale [2, 3] (initialize (Some simple_actions))) =
     initialize (Some \<lparr>getMatrix = Matrix 2 0 5  0 3 7  0 0 1, getColor = BLACK\<rparr>) \<and>
   rotate_op [0] (initialize (Some simple_actions)) = initialize (Some simple_actions)"
proof -
  have h: "actions (initialize (Some simple_actions)) = Some simple_actions"
    by (simp add: initialize_def)
  have i: "getMatrix simple_actions = identity_matrix"
    by (simp add: simple_actions_def)
  note t = transforms_left_multiply [OF h, of 2 3 5 7 0]
  from t i have ts: "translate [5, 7] (scale [2, 3] (initialize (Some simple_actions))) =
      (initialize (Some simple_actions))\<lparr>actions := Some (simple_actions\<lparr>getMatrix :=
         mat_mult (TranslationMatrix 5 7) (ScalingMatrix 2 3)\<rparr>)\<rparr>"
    and m: "mat_mult (TranslationMatrix 5 7) (ScalingMatrix 2 3) = Matrix 2 0 5  0 3 7  0 0 1"
    by blast+
  from t have r: "rotate_op [0] (initialize (Some simple_actions)) =
      (initialize (Some simple_actions))\<lparr>actions := Some (simple_actions\<lparr>getMatrix :=
         mat_mult (RotationMatrix 0) (getMatrix simple_actions)\<rparr>)\<rparr>"
    by blast
  have r0: "mat_mult (RotationMatrix 0) (getMatrix simple_actions) = identity_matrix"
    by (simp add: RotationMatrix_def simple_actions_def identity_matrix_def)
  show ?thesis
    unfolding ts r r0 m using h i by (simp add: initialize_def simple_actions_def)
qed

subsection \<open>The clipping stack under save and restore\<close>

lemma run_unnamed_above_save:
  assumes "0 \<le> saveID e"
  shows "\<forall>u \<in> set us. saveID u < 0 \<Longrightarrow>
         \<exists>vs. (\<forall>v \<in> set vs. saveID v < 0) \<and>
           run_unnamed ops (s\<lparr>clipStack := cs\<lparr>stack := us @ e # st\<rparr>\<rparr>) =
             s\<lparr>clipStack := cs\<lparr>stack := vs @ e # st\<rparr>\<rparr>"
proof (induction ops arbitrary: us)
  case Nil
  then show ?case by auto
next
  case (Cons a ops)
  show ?case
  proof (cases a)
    case GSAVE
    let ?u = "(if us = [] then e else hd us)\<lparr>saveID := -1\<rparr>"
    have step: "gsave [] (s\<lparr>clipStack := cs\<lparr>stack := us @ e # st\<rparr>\<rparr>) =
                s\<lparr>clipStack := cs\<lparr>stack := (?u # us) @ e # st\<rparr>\<rparr>"
      by (cases us) (simp_all add: gsave_def dup_def)
    have "\<forall>u \<in> set (?u # us). saveID u < 0" using Cons.prems by simp
    from Cons.IH [OF this] show ?thesis using GSAVE step by simp
  next
    case GRESTORE
    let ?us = "(if us = [] then [] else tl us)"
    have step: "grestore [] (s\<lparr>clipStack := cs\<lparr>stack := us @ e # st\<rparr>\<rparr>) =
                s\<lparr>clipStack := cs\<lparr>stack := ?us @ e # st\<rparr>\<rparr>"
      using assms Cons.prems by (cases us) (simp_all add: grestore_def pop_def)
    have "\<forall>u \<in> set ?us. saveID u < 0" using Cons.prems by (cases us) simp_all
    from Cons.IH [OF this] show ?thesis using GRESTORE step by simp
  qed
qed

lemma dropWhile_other_ids:
  "\<forall>v \<in> set vs. saveID v \<noteq> i \<Longrightarrow> saveID e = i \<Longrightarrow>
   dropWhile (\<lambda>x. saveID x \<noteq> i) (vs @ e # st) = e # st"
  by (induction vs) auto

lemma dropWhile_all: "\<forall>x \<in> set xs. P x \<Longrightarrow> dropWhile P xs = []"
  by (induction xs) auto

text \<open>
  Claim C3, amended. For every state and every save ID, a number \<open>x\<close> with
  \<open>0 \<le> x < 2\<^sup>3\<^sup>1\<close>, \<^verbatim>\<open>save(x)\<close> followed by any sequence of unnamed \<^verbatim>\<open>gsave\<close> and
  \<^verbatim>\<open>grestore\<close> operators and then \<^verbatim>\<open>restore(x)\<close> removes exactly the entries pushed since
  that save, the entry tagged with the ID included: the state is the one before the save.
  The bound is the range of the \<^verbatim>\<open>int\<close> that lines 435 and 440 convert the operand to.
\<close>

theorem save_restore_roundtrip:
  assumes "0 \<le> x" and "x < 2147483648"
  shows "restore [x] (run_unnamed ops (save [x] s)) = s"
proof -
  let ?i = "static_cast_int x"
  let ?e = "(if stack (clipStack s) = [] then new_Entry 0 (-1)
             else hd (stack (clipStack s)))\<lparr>saveID := ?i\<rparr>"
  have i: "0 \<le> ?i" using assms by (rule static_cast_int_in_range)
  have sv: "save [x] s =
      s\<lparr>clipStack := (clipStack s)\<lparr>stack := [] @ ?e # stack (clipStack s)\<rparr>\<rparr>"
    by (simp add: save_def dup_def)
  have e: "0 \<le> saveID ?e" using i by simp
  from run_unnamed_above_save [OF e, where us = "[]" and ops = ops and s = s
      and cs = "clipStack s" and st = "stack (clipStack s)"]
  obtain vs where vs: "\<forall>v \<in> set vs. saveID v < 0"
    and run: "run_unnamed ops (save [x] s) =
              s\<lparr>clipStack := (clipStack s)\<lparr>stack := vs @ ?e # stack (clipStack s)\<rparr>\<rparr>"
    unfolding sv by auto
  have ne: "\<forall>v \<in> set vs. saveID v \<noteq> ?i" using vs i by auto
  have "dropWhile (\<lambda>e. saveID e \<noteq> ?i) (vs @ ?e # stack (clipStack s)) = ?e # stack (clipStack s)"
    by (rule dropWhile_other_ids [OF ne]) simp
  then show ?thesis
    using i unfolding run by (simp add: restore_def pop_def)
qed

theorem save_restore_roundtrip_witness:
  "(0::real) \<le> 3 \<and> (3::real) < 2147483648 \<and>
   restore [3] (run_unnamed [GSAVE, GRESTORE, GSAVE, GSAVE] (save [3] (initialize None)))
     = initialize None"
  using save_restore_roundtrip [of 3 "[GSAVE, GRESTORE, GSAVE, GSAVE]" "initialize None"]
  by simp

text \<open>
  The operand 30000000000 does not fit an \<^verbatim>\<open>int\<close>: the conversion yields \<^verbatim>\<open>INT_MIN\<close>, a
  negative save ID, and \<^verbatim>\<open>pop\<close> takes its \<^verbatim>\<open>grestore\<close> branch. After \<^verbatim>\<open>save\<close> and \<^verbatim>\<open>gsave\<close> on
  the empty stack, \<^verbatim>\<open>restore\<close> pops the entry of the \<^verbatim>\<open>gsave\<close> only, and the entry of the
  \<^verbatim>\<open>save\<close> stays.
\<close>

theorem save_restore_out_of_range_counterexample:
  "restore [30000000000] (run_unnamed [GSAVE] (save [30000000000] (initialize None)))
     \<noteq> initialize None"
  by (simp add: initialize_def restore_def save_def gsave_def dup_def pop_def new_Entry_def
      static_cast_int_unfold)

text \<open>
  Claim C9, amended. For every save ID, a number \<open>x\<close> with \<open>0 \<le> x < 2\<^sup>3\<^sup>1\<close>, and every state
  in which no entry of the clipping stack is tagged with it, \<^verbatim>\<open>restore(x)\<close> pops every
  entry, named entries with other IDs included, and changes nothing else.
\<close>

theorem restore_unknown_id_empties_stack:
  assumes "0 \<le> x" and "x < 2147483648"
    and "\<forall>e \<in> set (stack (clipStack s)). saveID e \<noteq> static_cast_int x"
  shows "restore [x] s = s\<lparr>clipStack := (clipStack s)\<lparr>stack := []\<rparr>\<rparr>"
proof -
  have "0 \<le> static_cast_int x" using assms(1,2) by (rule static_cast_int_in_range)
  then show ?thesis
    using assms(3) by (simp add: restore_def pop_def dropWhile_all)
qed

theorem restore_unknown_id_empties_stack_witness:
  "(0::real) \<le> 3 \<and> (3::real) < 2147483648 \<and>
   map saveID (stack (clipStack (gsave [] (save [5] (gsave [] (save [2] (initialize None)))))))
     = [-1, 5, -1, 2] \<and>
   static_cast_int 3 = 3 \<and>
   restore [3] (gsave [] (save [5] (gsave [] (save [2] (initialize None))))) = initialize None"
proof -
  let ?s = "gsave [] (save [5] (gsave [] (save [2] (initialize None))))"
  have ids: "map saveID (stack (clipStack ?s)) = [-1, 5, -1, 2]"
    by (simp add: initialize_def save_def gsave_def dup_def new_Entry_def static_cast_int_unfold)
  have three: "static_cast_int 3 = 3"
    by (simp add: static_cast_int_unfold)
  have "3 \<notin> set (map saveID (stack (clipStack ?s)))"
    unfolding ids by simp
  then have no: "\<forall>e \<in> set (stack (clipStack ?s)). saveID e \<noteq> static_cast_int 3"
    unfolding three by force
  have "restore [3] ?s = ?s\<lparr>clipStack := (clipStack ?s)\<lparr>stack := []\<rparr>\<rparr>"
    using restore_unknown_id_empties_stack [of 3 ?s] no by simp
  also have "\<dots> = initialize None"
    by (simp add: initialize_def save_def gsave_def dup_def)
  finally show ?thesis using ids three by simp
qed

text \<open>
  The stack holds one entry, tagged 4, and the operand is 30000000000, which does not fit
  an \<^verbatim>\<open>int\<close>. No entry is tagged with it, and \<^verbatim>\<open>restore\<close> pops nothing: the conversion
  yields \<^verbatim>\<open>INT_MIN\<close>, and \<^verbatim>\<open>pop\<close> takes its \<^verbatim>\<open>grestore\<close> branch, which leaves a named top
  entry alone.
\<close>

theorem restore_out_of_range_counterexample:
  "map saveID (stack (clipStack (save [4] (initialize None)))) = [4] \<and>
   stack (clipStack (restore [30000000000] (save [4] (initialize None)))) \<noteq> []"
  by (simp add: initialize_def restore_def save_def dup_def pop_def new_Entry_def
      static_cast_int_unfold)

subsection \<open>initclip\<close>

text \<open>
  Claim C7, amended. \<^verbatim>\<open>initclip\<close> leaves an empty clipping stack as it is; on any other
  stack it pushes one unnamed entry with the path ID 0 and a cleared flag. Either way the
  top of the stack then has the path ID 0 and no clipping path: it is the state without
  clipping, not a separate encoding of an empty region.
\<close>

theorem initclip_pushes_no_clip_entry:
  "topID (clipStack (initclip p s)) = 0 \<and> top_path (clipStack (initclip p s)) = None \<and>
   stack (clipStack (initclip p s)) =
     (if stack (clipStack s) = [] then [] else new_Entry 0 (-1) # stack (clipStack s))"
  by (simp add: initclip_def pushEmptyPath_def topID_def top_path_def new_Entry_def)

theorem initclip_pushes_no_clip_entry_witness:
  "stack (clipStack (initclip [] (save [4] (initialize None)))) =
     [new_Entry 0 (-1), new_Entry 0 4] \<and>
   stack (clipStack (initclip [] (initialize None))) = []"
  using initclip_pushes_no_clip_entry [of "[]" "save [4] (initialize None)"]
    initclip_pushes_no_clip_entry [of "[]" "initialize None"]
  by (simp add: initialize_def save_def dup_def new_Entry_def static_cast_int_unfold)

text \<open>
  On the empty stack \<^verbatim>\<open>initclip\<close> pushes nothing. After a \<^verbatim>\<open>gsave\<close> it pushes an entry with
  the path ID 0, equal to the entry that stands for the absence of a clipping path.
\<close>

theorem initclip_counterexample:
  "initclip [] (initialize None) = initialize None \<and>
   pathID (hd (stack (clipStack (initclip [] (gsave [] (initialize None)))))) = 0 \<and>
   hd (stack (clipStack (initclip [] (gsave [] (initialize None))))) =
     hd (stack (clipStack (gsave [] (initialize None))))"
  by (simp add: initialize_def initclip_def pushEmptyPath_def gsave_def dup_def new_Entry_def)

subsection \<open>Elements and attributes\<close>

lemma elements_append: "elements (xs @ ys) = elements xs @ elements ys"
  by (simp add: elements_def List.map_filter_def)

lemma elements_simps:
  "elements [] = []"
  "elements (ToPage e # out) = e # elements out"
  "elements (ToDefs e # out) = e # elements out"
  "elements (ToNode n e # out) = e # elements out"
  "elements (ToGroup e # out) = e # elements out"
  "elements (Embed b # out) = elements out"
  "elements (ApplyPattern pat # out) = elements out"
  by (simp_all add: elements_def map_filter_simps)

lemma elements_deliver:
  "elements (emitted (deliver e bbox s)) =
     elements (emitted s) @ (case e of None \<Rightarrow> [] | Some el \<Rightarrow> [el])"
  by (simp add: deliver_def appendToPage_def node_append_def elements_append elements_simps
      split: option.splits)

lemma attribute_addAttribute:
  "attribute k (addAttribute k' v e) =
     (case attribute k e of Some w \<Rightarrow> Some w | None \<Rightarrow> if k = k' then Some v else None)"
  by (cases e) (simp add: attribute_def map_add_def split: option.splits)

lemma name_addAttribute: "elem_name (addAttribute k v e) = elem_name e"
  by (cases e) simp


subsection \<open>stroke\<close>





lemma attribute_new: "attribute k (new_XMLElementNode n) = None"
  by (simp add: attribute_def new_XMLElementNode_def)

lemma attribute_addAttribute_other:
  "k \<noteq> k' \<Longrightarrow> attribute k (addAttribute k' v e) = attribute k e"
  by (simp add: attribute_addAttribute split: option.splits)

lemma attribute_addAttribute_if_other:
  "k \<noteq> k' \<Longrightarrow> attribute k (addAttribute_if b k' v e) = attribute k e"
  by (simp add: addAttribute_if_def attribute_addAttribute_other)

lemma attribute_addAttribute_if_new:
  "attribute k e = None \<Longrightarrow> attribute k (addAttribute_if b k v e) = (if b then Some v else None)"
  by (simp add: addAttribute_if_def attribute_addAttribute)

lemma stroke_path_linejoin:
  "attribute ''stroke-linejoin'' (stroke_path s act pth) =
     (if linejoin s > 0 then Some (Str (if linecap s = 1 then ''round'' else ''bevel'')) else None)"
proof -
  let ?e6 = "addAttribute_if (linecap s > 0) ''stroke-linecap''
                 (Str (if linecap s = 1 then ''round'' else ''square''))
            (addAttribute_if (miterlimit s \<noteq> 4) ''stroke-miterlimit'' (Num (miterlimit s))
            (addAttribute_if (linewidth s \<noteq> 1) ''stroke-width'' (Num (linewidth s))
            (addAttribute ''fill'' (Str ''none'')
            (addAttribute ''stroke'' (ColorString (getColor act))
            (addAttribute ''d'' (PathData pth) (new_XMLElementNode ''path''))))))"
  let ?e7 = "addAttribute_if (linejoin s > 0) ''stroke-linejoin''
                 (Str (if linecap s = 1 then ''round'' else ''bevel'')) ?e6"
  let ?v = "(if linejoin s > 0 then Some (Str (if linecap s = 1 then ''round'' else ''bevel''))
             else None)"
  have "attribute ''stroke-linejoin'' ?e6 = None"
    by (simp add: attribute_addAttribute_if_other attribute_addAttribute_other attribute_new)
  then have 7: "attribute ''stroke-linejoin'' ?e7 = ?v"
    by (rule attribute_addAttribute_if_new)
  have 8: "attribute ''stroke-linejoin''
             (addAttribute_if (opacityalpha s < 1) ''stroke-opacity'' (Num (opacityalpha s)) ?e7) = ?v"
    using 7 by (simp add: attribute_addAttribute_if_other)
  have 9: "attribute ''stroke-linejoin''
       (addAttribute_if (dashoffset s \<noteq> 0) ''stroke-dashoffset'' (Num (dashoffset s))
         (addAttribute ''stroke-dasharray'' (NumList (dashpattern s))
           (addAttribute_if (opacityalpha s < 1) ''stroke-opacity'' (Num (opacityalpha s)) ?e7))) = ?v"
    using 8 by (simp add: attribute_addAttribute_if_other attribute_addAttribute_other)
  show ?thesis
    by (simp only: stroke_path_def Let_def if_distrib [of "attribute ''stroke-linejoin''"] 8 9
        if_cancel)
qed

text \<open>
  Claim C6 does not hold of the code. The attribute \<^verbatim>\<open>stroke-linejoin\<close> is present exactly
  when the join style is not miter, but line 512 chooses its value by the cap style
  (lemma \<open>stroke_path_linejoin\<close>). A line stroked with the join style round (1) and the
  cap style butt (0) gets the value \<^verbatim>\<open>bevel\<close>.
\<close>

theorem stroke_round_join_written_as_bevel:
  "map (attribute ''stroke-linejoin'')
     (elements (emitted (stroke []
        ((initialize (Some simple_actions))\<lparr>path := path_lineto 10 0 (path_moveto 0 0 new_Path),
           linejoin := 1\<rparr>))))
   = [Some (Str ''bevel'')]"
  by (simp add: stroke_def Let_def initialize_def simple_actions_def path_lineto_def path_moveto_def
      new_Path_def removeRedundantCommands_def path_empty_def isIdentity_def top_path_def
      clippathLoaded_def isDot_def path_clear_def elements_deliver elements_simps
      stroke_path_linejoin)

subsection \<open>setpattern and fill\<close>

lemma fill_without_pattern:
  assumes "pattern s = None"
  shows "elements (emitted (fill q evenodd s)) = elements (emitted s) \<or>
         (\<exists>el act. actions s = Some act \<and>
            elements (emitted (fill q evenodd s)) = elements (emitted s) @ [el] \<and>
            elem_name el = ''path'' \<and>
            attribute ''fill'' el =
              (if getColor act \<noteq> BLACK \<or> savenode s \<noteq> None
               then Some (ColorString (getColor act)) else None))"
proof (cases "actions s")
  case None
  then show ?thesis by (simp add: fill_def Let_def)
next
  case (Some act)
  show ?thesis
  proof (cases "path_empty (removeRedundantCommands (path s)) \<and> \<not> clippathLoaded (clipStack s)")
    case True
    then show ?thesis using Some by (simp add: fill_def Let_def)
  next
    case False
    then show ?thesis
      using Some assms
      by (cases "top_path (clipStack s)")
         (auto simp add: fill_def Let_def elements_deliver addAttribute_if_def
            attribute_addAttribute name_addAttribute new_XMLElementNode_def attribute_def)
  qed
qed

text \<open>
  Claim C8. For a pattern ID that \<^verbatim>\<open>makepattern\<close> has not registered, \<^verbatim>\<open>setpattern\<close> clears
  the active pattern and does nothing else: no error, no message, no output. In every
  state without an active pattern \<^verbatim>\<open>fill\<close> hands over nothing or one path element whose
  \<^verbatim>\<open>fill\<close> attribute is the current colour of the host, or is left out when that colour is
  black, the default, and no pattern is being defined; it is never a pattern reference.
\<close>

theorem setpattern_unknown_id:
  assumes "patterns s (static_cast_int (p ! 0)) = None"
  shows "setpattern p s = s\<lparr>pattern := None\<rparr> \<and>
         (\<forall>s' q evenodd. pattern s' = None \<longrightarrow>
            elements (emitted (fill q evenodd s')) = elements (emitted s') \<or>
            (\<exists>el act. actions s' = Some act \<and>
               elements (emitted (fill q evenodd s')) = elements (emitted s') @ [el] \<and>
               elem_name el = ''path'' \<and>
               attribute ''fill'' el =
                 (if getColor act \<noteq> BLACK \<or> savenode s' \<noteq> None
                  then Some (ColorString (getColor act)) else None)))"
  using assms fill_without_pattern by (simp add: setpattern_def Let_def)

theorem setpattern_unknown_id_witness:
  "patterns pattern_state (static_cast_int ([7] ! 0)) = None \<and>
   pattern pattern_state = Some (PSColoredTilingPattern 1) \<and>
   setpattern [7] pattern_state = pattern_state\<lparr>pattern := None\<rparr> \<and>
   map (attribute ''fill'') (elements (emitted (fill [] False (setpattern [7] pattern_state))))
     = [Some (ColorString (RGB 1 0 0))]"
proof -
  have h: "patterns pattern_state (static_cast_int ([7] ! 0)) = None"
    by (simp add: pattern_state_def initialize_def static_cast_int_unfold)
  from setpattern_unknown_id [OF h]
  have sp: "setpattern [7] pattern_state = pattern_state\<lparr>pattern := None\<rparr>"
    by blast
  have "map (attribute ''fill'') (elements (emitted (fill [] False (pattern_state\<lparr>pattern := None\<rparr>))))
     = [Some (ColorString (RGB 1 0 0))]"
    by (simp add: fill_def Let_def pattern_state_def initialize_def red_actions_def
        path_closepath_def path_lineto_def path_moveto_def new_Path_def
        removeRedundantCommands_def path_empty_def isIdentity_def top_path_def
        clippathLoaded_def elements_deliver elements_simps addAttribute_if_def BLACK_def
        attribute_addAttribute attribute_new)
  with h sp show ?thesis by (simp add: pattern_state_def)
qed

subsection \<open>shfill\<close>

text \<open>
  Claim C10. For every operand list of fewer than 9 numbers \<^verbatim>\<open>shfill\<close> returns at once:
  nothing is appended, the clipping stack and the rest of the state are unchanged, and
  nothing is written to the error stream.
\<close>

theorem shfill_short_operand_list:
  assumes "length params < 9"
  shows "shfill ext params s = Inr s"
  using assms by (simp add: shfill_def)

theorem shfill_short_operand_list_witness:
  "length [6, 3, 0, 1, 0, 0, 10, 10 :: real] < 9 \<and>
   shfill simple_ext [6, 3, 0, 1, 0, 0, 10, 10] (initialize (Some simple_actions)) =
     Inr (initialize (Some simple_actions))"
  using shfill_short_operand_list [of "[6, 3, 0, 1, 0, 0, 10, 10]" simple_ext
      "initialize (Some simple_actions)"]
  by simp

subsection \<open>What the mesh loops change\<close>

lemma extends_refl: "extends s s"
  by (auto simp: extends_def intro: exI [of _ "[]"])

lemma extends_trans: "extends s s' \<Longrightarrow> extends s' s'' \<Longrightarrow> extends s s''"
  by (auto simp: extends_def)

lemma extends_emit: "extends s (s\<lparr>emitted := emitted s @ out\<rparr>)"
  by (auto simp: extends_def)

lemma extends_fields:
  "extends s s' \<Longrightarrow> actions s' = actions s \<and> xmlnode s' = xmlnode s \<and> clipStack s' = clipStack s \<and>
     messages s' = messages s \<and> path s' = path s \<and>
     SHADING_SEGMENT_SIZE s' = SHADING_SEGMENT_SIZE s"
  by (auto simp: extends_def)

lemma ShadingCallback_extends: "ShadingCallback s = Inr s' \<Longrightarrow> extends s s'"
  by (auto simp: ShadingCallback_def Let_def extends_def split: option.splits)

lemma ShadingCallback_exception:
  "ShadingCallback s = Inl e \<Longrightarrow> e = NullDereference \<and> actions s = None"
  by (auto simp: ShadingCallback_def Let_def split: option.splits)

lemma patchSegment_extends: "patchSegment seg s = Inr s' \<Longrightarrow> extends s s'"
  by (auto simp: patchSegment_def Let_def extends_def split: option.splits)

lemma patchSegment_exception:
  "patchSegment seg s = Inl e \<Longrightarrow> e = NullDereference \<and> actions s = None"
  by (auto simp: patchSegment_def Let_def split: option.splits)

lemma patchSegments_extends: "patchSegments segs s = (r, s') \<Longrightarrow> extends s s'"
proof (induction segs arbitrary: s)
  case Nil
  then show ?case by (simp add: extends_refl)
next
  case (Cons seg segs)
  show ?case
  proof (cases "patchSegment seg s")
    case (Inl e)
    with Cons.prems show ?thesis by (simp add: extends_refl)
  next
    case (Inr s1)
    with Cons.prems have "patchSegments segs s1 = (r, s')" by simp
    from Cons.IH [OF this] patchSegment_extends [OF Inr] show ?thesis
      by (rule extends_trans [rotated])
  qed
qed

lemma patchSegments_exception:
  "patchSegments segs s = (Some e, s') \<Longrightarrow> e = NullDereference \<and> actions s = None"
proof (induction segs arbitrary: s)
  case Nil
  then show ?case by simp
next
  case (Cons seg segs)
  show ?case
  proof (cases "patchSegment seg s")
    case (Inl e')
    with Cons.prems patchSegment_exception [OF Inl] show ?thesis by simp
  next
    case (Inr s1)
    with Cons.prems have "patchSegments segs s1 = (Some e, s')" by simp
    from Cons.IH [OF this] patchSegment_extends [OF Inr] show ?thesis
      by (auto dest: extends_fields)
  qed
qed

lemma approximate_patch_extends: "approximate_patch ext patch s = (r, s') \<Longrightarrow> extends s s'"
  unfolding approximate_patch_def by (rule patchSegments_extends)

lemma approximate_patch_exception:
  "approximate_patch ext patch s = (Some e, s') \<Longrightarrow> e = NullDereference \<and> actions s = None"
  unfolding approximate_patch_def by (rule patchSegments_exception)

lemma draw_patch_extends:
  assumes "draw_patch ext patch s = (r, s')"
  shows "extends s s'"
proof (cases "ShadingCallback s")
  case (Inl e)
  with assms show ?thesis by (simp add: draw_patch_def extends_refl)
next
  case (Inr s1)
  obtain r2 s2 where ap: "approximate_patch ext patch s1 = (r2, s2)" by force
  have 12: "extends s s2"
    using ShadingCallback_extends [OF Inr] approximate_patch_extends [OF ap]
    by (rule extends_trans)
  from assms Inr ap have "s' = s2 \<or> (\<exists>out. s' = s2\<lparr>emitted := emitted s2 @ out\<rparr>)"
    by (auto simp: draw_patch_def split: option.splits if_splits)
  then have "extends s2 s'"
    by (auto simp: extends_refl extends_emit)
  with 12 show ?thesis by (rule extends_trans)
qed

lemma draw_patch_exception:
  assumes "draw_patch ext patch s = (Some e, s')"
  shows "e = NullDereference \<and> actions s = None"
proof (cases "ShadingCallback s")
  case (Inl e')
  with assms ShadingCallback_exception [OF Inl] show ?thesis by (simp add: draw_patch_def)
next
  case (Inr s1)
  obtain r2 s2 where ap: "approximate_patch ext patch s1 = (r2, s2)" by force
  have a1: "actions s1 = actions s" using ShadingCallback_extends [OF Inr] by (auto dest: extends_fields)
  have a2: "actions s2 = actions s1" using approximate_patch_extends [OF ap] by (auto dest: extends_fields)
  show ?thesis
  proof (cases r2)
    case None
    with assms Inr ap a1 a2 show ?thesis
      by (auto simp: draw_patch_def split: option.splits if_splits)
  next
    case (Some e2)
    with assms Inr ap have "e = e2" by (simp add: draw_patch_def)
    with approximate_patch_exception [of ext patch s1 e2 s2] ap Some a1 show ?thesis by simp
  qed
qed

lemma it_next_exception: "it_next it = Inl e \<longleftrightarrow> it = [] \<and> e = IteratorException"
  by (cases it) auto

lemma color_set_exception:
  "color_set ext cs it = Inl e \<longleftrightarrow> length it < components cs \<and> e = IteratorException"
  by (auto simp: color_set_def)

lemma read_vertices_exception:
  "read_vertices ext cs k i it ps cls = Inl e \<Longrightarrow> e = IteratorException"
  by (induction k arbitrary: i it ps cls)
     (auto simp: it_next_exception color_set_exception split: sum.splits)

lemma read_points_exception: "read_points k i it ps = Inl e \<Longrightarrow> e = IteratorException"
  by (induction k arbitrary: i it ps) (auto simp: it_next_exception split: sum.splits)

lemma read_colors_exception: "read_colors ext cs k i it cls = Inl e \<Longrightarrow> e = IteratorException"
  by (induction k arbitrary: i it cls) (auto simp: color_set_exception split: sum.splits)

lemma read_row_exception: "read_row ext cs k i it row = Inl e \<Longrightarrow> e = IteratorException"
  by (induction k arbitrary: i it row)
     (auto simp: it_next_exception color_set_exception split: sum.splits)

lemma processSequentialPatchMesh_extends:
  "processSequentialPatchMesh ext t cs it prev s = (r, s') \<Longrightarrow> extends s s'"
proof (induction ext t cs it prev s rule: processSequentialPatchMesh.induct)
  case (1 ext t cs it prev s)
  show ?case
  proof (cases it)
    case Nil
    with "1.prems" show ?thesis by (simp add: processSequentialPatchMesh.simps extends_refl)
  next
    case (Cons ef it1)
    show ?thesis
    proof (cases "read_patch ext t cs (static_cast_int ef) it1 prev")
      case (Inl e)
      with "1.prems" Cons show ?thesis by (simp add: processSequentialPatchMesh.simps extends_refl)
    next
      case (Inr x)
      obtain patch it2 where x: "x = (patch, it2)" by force
      obtain r1 s1 where dp: "draw_patch ext patch s = (r1, s1)" by force
      show ?thesis
      proof (cases r1)
        case (Some e)
        with "1.prems" Cons Inr x dp draw_patch_extends [OF dp] show ?thesis by (simp add: processSequentialPatchMesh.simps)
      next
        case None
        with "1.prems" Cons Inr x dp
        have rec: "processSequentialPatchMesh ext t cs it2 (Some patch) s1 = (r, s')" by (simp add: processSequentialPatchMesh.simps)
        have "extends s1 s'"
          using "1.IH" [OF Cons Inr x [symmetric] dp [symmetric] _ rec] None by (simp add: processSequentialPatchMesh.simps)
        with draw_patch_extends [OF dp] show ?thesis by (rule extends_trans)
      qed
    qed
  qed
qed


lemma processSequentialPatchMesh_null:
  "processSequentialPatchMesh ext t cs it prev s = (Some NullDereference, s') \<Longrightarrow> actions s = None"
proof (induction ext t cs it prev s rule: processSequentialPatchMesh.induct)
  case (1 ext t cs it prev s)
  show ?case
  proof (cases it)
    case Nil
    with "1.prems" show ?thesis by (simp add: processSequentialPatchMesh.simps)
  next
    case (Cons ef it1)
    show ?thesis
    proof (cases "read_patch ext t cs (static_cast_int ef) it1 prev")
      case (Inl e)
      with "1.prems" Cons have "read_patch ext t cs (static_cast_int ef) it1 prev = Inl NullDereference"
        by (simp add: processSequentialPatchMesh.simps)
      then show ?thesis
        by (auto simp: read_patch_def read_patch_data_def Let_def
            split: sum.splits if_splits dest!: read_vertices_exception read_points_exception
              read_colors_exception)
    next
      case (Inr x)
      obtain patch it2 where x: "x = (patch, it2)" by force
      obtain r1 s1 where dp: "draw_patch ext patch s = (r1, s1)" by force
      show ?thesis
      proof (cases r1)
        case (Some e)
        with "1.prems" Cons Inr x dp draw_patch_exception [of ext patch s e s1] show ?thesis by (simp add: processSequentialPatchMesh.simps)
      next
        case None
        with "1.prems" Cons Inr x dp
        have rec: "processSequentialPatchMesh ext t cs it2 (Some patch) s1 = (Some NullDereference, s')"
          by (simp add: processSequentialPatchMesh.simps)
        have "actions s1 = None"
          using "1.IH" [OF Cons Inr x [symmetric] dp [symmetric] _ rec] None by (simp add: processSequentialPatchMesh.simps)
        with draw_patch_extends [OF dp] show ?thesis by (auto dest: extends_fields)
      qed
    qed
  qed
qed


lemma lattice_triangles_extends:
  "lattice_triangles ext patch k i row1 row2 s = (r, patch', s') \<Longrightarrow> extends s s'"
proof (induction k arbitrary: patch i s)
  case 0
  then show ?case by (simp add: extends_refl)
next
  case (Suc k)
  let ?p1 = "setColors3 ext (setPoints3 ext patch (point (row1 ! i)) (point (row1 ! (i + 1)))
      (point (row2 ! i))) (color (row1 ! i)) (color (row1 ! (i + 1))) (color (row2 ! i))"
  let ?p2 = "setColors3 ext (setPoints3 ext ?p1 (point (row1 ! (i + 1))) (point (row2 ! i))
      (point (row2 ! (i + 1)))) (color (row1 ! (i + 1))) (color (row2 ! i)) (color (row2 ! (i + 1)))"
  obtain r1 s1 where a1: "approximate_patch ext ?p1 s = (r1, s1)" by force
  obtain r2 s2 where a2: "approximate_patch ext ?p2 s1 = (r2, s2)" by force
  note e1 = approximate_patch_extends [OF a1]
  note e2 = extends_trans [OF e1 approximate_patch_extends [OF a2]]
  show ?case
  proof (cases r1)
    case (Some e)
    with Suc.prems a1 e1 show ?thesis by (simp add: Let_def)
  next
    case None
    note r1 = this
    show ?thesis
    proof (cases r2)
      case (Some e)
      with Suc.prems a1 a2 r1 e2 show ?thesis by (simp add: Let_def)
    next
      case None
      with Suc.prems a1 a2 r1
      have "lattice_triangles ext ?p2 k (Suc i) row1 row2 s2 = (r, patch', s')"
        by (simp add: Let_def)
      from extends_trans [OF e2 Suc.IH [OF this]] show ?thesis .
    qed
  qed
qed

lemma lattice_triangles_exception:
  "lattice_triangles ext patch k i row1 row2 s = (Some e, patch', s') \<Longrightarrow>
   e = NullDereference \<and> actions s = None"
proof (induction k arbitrary: patch i s)
  case 0
  then show ?case by simp
next
  case (Suc k)
  let ?p1 = "setColors3 ext (setPoints3 ext patch (point (row1 ! i)) (point (row1 ! (i + 1)))
      (point (row2 ! i))) (color (row1 ! i)) (color (row1 ! (i + 1))) (color (row2 ! i))"
  let ?p2 = "setColors3 ext (setPoints3 ext ?p1 (point (row1 ! (i + 1))) (point (row2 ! i))
      (point (row2 ! (i + 1)))) (color (row1 ! (i + 1))) (color (row2 ! i)) (color (row2 ! (i + 1)))"
  obtain r1 s1 where a1: "approximate_patch ext ?p1 s = (r1, s1)" by force
  obtain r2 s2 where a2: "approximate_patch ext ?p2 s1 = (r2, s2)" by force
  have f1: "actions s1 = actions s"
    using approximate_patch_extends [OF a1] by (auto dest: extends_fields)
  have f2: "actions s2 = actions s1"
    using approximate_patch_extends [OF a2] by (auto dest: extends_fields)
  show ?case
  proof (cases r1)
    case (Some e1)
    with Suc.prems a1 approximate_patch_exception [of ext ?p1 s e1 s1] show ?thesis
      by (simp add: Let_def)
  next
    case None
    note r1 = this
    show ?thesis
    proof (cases r2)
      case (Some e2)
      with Suc.prems a1 a2 r1 f1 approximate_patch_exception [of ext ?p2 s1 e2 s2] show ?thesis
        by (simp add: Let_def)
    next
      case None
      with Suc.prems a1 a2 r1
      have "lattice_triangles ext ?p2 k (Suc i) row1 row2 s2 = (Some e, patch', s')"
        by (simp add: Let_def)
      from Suc.IH [OF this] f1 f2 show ?thesis by simp
    qed
  qed
qed

lemma lattice_rows_extends:
  "lattice_rows ext cs n patch row1 row2 it s = (r, s') \<Longrightarrow> extends s s'"
proof (induction ext cs n patch row1 row2 it s rule: lattice_rows.induct)
  case (1 ext cs n patch row1 row2 it s)
  show ?case
  proof (cases "it_valid it \<and> 2 \<le> n")
    case False
    with "1.prems" show ?thesis by (auto simp: lattice_rows.simps extends_refl)
  next
    case True
    show ?thesis
    proof (cases "read_row ext cs n 0 it row2")
      case (Inl e)
      with "1.prems" True show ?thesis by (simp add: lattice_rows.simps extends_refl)
    next
      case (Inr x)
      obtain row2' it' where x: "x = (row2', it')" by force
      obtain r1 patch' s1 where lt: "lattice_triangles ext patch (n - 1) 0 row1 row2' s = (r1, patch', s1)"
        by (metis prod_cases3)
      note e1 = lattice_triangles_extends [OF lt]
      show ?thesis
      proof (cases r1)
        case (Some e)
        with "1.prems" True Inr x lt e1 show ?thesis by (simp add: lattice_rows.simps)
      next
        case None
        with "1.prems" True Inr x lt
        have rec: "lattice_rows ext cs n patch' row2' row1 it' s1 = (r, s')" by (simp add: lattice_rows.simps)
        have "extends s1 s'"
          using "1.IH" [OF True Inr x [symmetric] _ _ _ rec] lt None by (simp add: lattice_rows.simps)
        with e1 show ?thesis by (rule extends_trans)
      qed
    qed
  qed
qed

lemma lattice_rows_null:
  "lattice_rows ext cs n patch row1 row2 it s = (Some NullDereference, s') \<Longrightarrow> actions s = None"
proof (induction ext cs n patch row1 row2 it s rule: lattice_rows.induct)
  case (1 ext cs n patch row1 row2 it s)
  show ?case
  proof (cases "it_valid it \<and> 2 \<le> n")
    case False
    with "1.prems" show ?thesis by (auto simp: lattice_rows.simps)
  next
    case True
    show ?thesis
    proof (cases "read_row ext cs n 0 it row2")
      case (Inl e)
      with "1.prems" True read_row_exception [OF Inl] show ?thesis by (simp add: lattice_rows.simps)
    next
      case (Inr x)
      obtain row2' it' where x: "x = (row2', it')" by force
      obtain r1 patch' s1 where lt: "lattice_triangles ext patch (n - 1) 0 row1 row2' s = (r1, patch', s1)"
        by (metis prod_cases3)
      show ?thesis
      proof (cases r1)
        case (Some e)
        with "1.prems" True Inr x lt lattice_triangles_exception [of ext patch "n - 1" 0 row1 row2' s e patch' s1]
        show ?thesis by (simp add: lattice_rows.simps)
      next
        case None
        with "1.prems" True Inr x lt
        have rec: "lattice_rows ext cs n patch' row2' row1 it' s1 = (Some NullDereference, s')" by (simp add: lattice_rows.simps)
        have "actions s1 = None"
          using "1.IH" [OF True Inr x [symmetric] _ _ _ rec] lt None by (simp add: lattice_rows.simps)
        with lattice_triangles_extends [OF lt] show ?thesis by (auto dest: extends_fields)
      qed
    qed
  qed
qed

lemma process_mesh_extends:
  assumes "process_mesh ext t cs it s = (r, s')"
  shows "extends s s'"
proof (cases "t = 5")
  case False
  with assms show ?thesis
    by (auto simp: process_mesh_def dest: processSequentialPatchMesh_extends)
next
  case True
  with assms have l: "processLatticeTriangularPatchMesh ext cs it s = (r, s')"
    by (simp add: process_mesh_def)
  then consider (same) "s' = s"
    | (rows) s1 n patch row1 row2 it2 where "ShadingCallback s = Inr s1"
        and "lattice_rows ext cs n patch row1 row2 it2 s1 = (r, s')"
    by (auto simp: processLatticeTriangularPatchMesh_def Let_def split: sum.splits if_splits)
  then show ?thesis
  proof cases
    case same
    then show ?thesis by (simp add: extends_refl)
  next
    case rows
    from ShadingCallback_extends [OF rows(1)] lattice_rows_extends [OF rows(2)]
    show ?thesis by (rule extends_trans)
  qed
qed

lemma process_mesh_null:
  assumes "process_mesh ext t cs it s = (Some NullDereference, s')"
  shows "actions s = None"
proof (cases "t = 5")
  case False
  with assms show ?thesis
    by (auto simp: process_mesh_def dest: processSequentialPatchMesh_null)
next
  case True
  with assms have l: "processLatticeTriangularPatchMesh ext cs it s = (Some NullDereference, s')"
    by (simp add: process_mesh_def)
  then show ?thesis
    by (auto simp: processLatticeTriangularPatchMesh_def Let_def it_next_exception
        split: sum.splits if_splits
        dest!: ShadingCallback_extends ShadingCallback_exception lattice_rows_null
          read_row_exception extends_fields)
qed

subsection \<open>Reading depends on the operands read only\<close>

lemma it_next_value: "it_next it = Inr (x, it') \<longleftrightarrow> it = x # it'"
  by (cases it) auto

lemma color_set_split:
  assumes "color_set ext cs it = Inr (c, it')"
  shows "\<exists>pre. it = pre @ it' \<and> (\<forall>zs. color_set ext cs (pre @ zs) = Inr (c, zs))"
proof -
  let ?n = "components cs"
  from assms have n: "?n \<le> length it" and c: "c = toColor ext cs (take ?n it)" and it': "it' = drop ?n it"
    by (auto simp: color_set_def split: if_splits)
  have "it = take ?n it @ it'" using it' by simp
  moreover have "color_set ext cs (take ?n it @ zs) = Inr (c, zs)" for zs
    using n c by (simp add: color_set_def)
  ultimately show ?thesis by blast
qed

lemma read_vertices_split:
  "read_vertices ext cs k i it ps cls = Inr (ps', cls', it') \<Longrightarrow>
   \<exists>pre. it = pre @ it' \<and>
     (\<forall>zs. read_vertices ext cs k i (pre @ zs) ps cls = Inr (ps', cls', zs))"
proof (induction k arbitrary: i it ps cls)
  case 0
  then show ?case by auto
next
  case (Suc k)
  let ?it0 = "if i > 0 then drop 1 it else it"
  from Suc.prems obtain x it1 y it2 c it3 where
    1: "it_next ?it0 = Inr (x, it1)" and
    2: "it_next it1 = Inr (y, it2)" and
    3: "color_set ext cs it2 = Inr (c, it3)" and
    4: "read_vertices ext cs k (Suc i) it3 (ps[i := (x, y)]) (cls[i := c]) = Inr (ps', cls', it')"
    by (auto split: sum.splits)
  from 1 2 have it0: "?it0 = x # y # it2" by (simp add: it_next_value)
  from color_set_split [OF 3] obtain pc where
    pc: "it2 = pc @ it3" "\<And>zs. color_set ext cs (pc @ zs) = Inr (c, zs)" by blast
  from Suc.IH [OF 4] obtain pr where
    pr: "it3 = pr @ it'"
      "\<And>zs. read_vertices ext cs k (Suc i) (pr @ zs) (ps[i := (x, y)]) (cls[i := c]) = Inr (ps', cls', zs)"
    by blast
  show ?case
  proof (cases "i > 0")
    case False
    with it0 pc(1) pr(1) have "it = (x # y # pc @ pr) @ it'" by simp
    moreover have "read_vertices ext cs (Suc k) i ((x # y # pc @ pr) @ zs) ps cls = Inr (ps', cls', zs)"
      for zs
      using False pc(2) [of "pr @ zs"] pr(2) [of zs] by simp
    ultimately show ?thesis by blast
  next
    case True
    with it0 obtain e where e: "it = e # x # y # it2" by (cases it) auto
    with pc(1) pr(1) have "it = (e # x # y # pc @ pr) @ it'" by simp
    moreover have "read_vertices ext cs (Suc k) i ((e # x # y # pc @ pr) @ zs) ps cls =
        Inr (ps', cls', zs)" for zs
      using True pc(2) [of "pr @ zs"] pr(2) [of zs] by simp
    ultimately show ?thesis by blast
  qed
qed

lemma read_points_split:
  "read_points k i it ps = Inr (ps', it') \<Longrightarrow>
   \<exists>pre. it = pre @ it' \<and> (\<forall>zs. read_points k i (pre @ zs) ps = Inr (ps', zs))"
proof (induction k arbitrary: i it ps)
  case 0
  then show ?case by auto
next
  case (Suc k)
  from Suc.prems obtain x it1 y it2 where
    1: "it_next it = Inr (x, it1)" and
    2: "it_next it1 = Inr (y, it2)" and
    4: "read_points k (Suc i) it2 (ps[i := (x, y)]) = Inr (ps', it')"
    by (auto split: sum.splits)
  from 1 2 have it: "it = x # y # it2" by (simp add: it_next_value)
  from Suc.IH [OF 4] obtain pr where
    pr: "it2 = pr @ it'" "\<And>zs. read_points k (Suc i) (pr @ zs) (ps[i := (x, y)]) = Inr (ps', zs)"
    by blast
  have "it = (x # y # pr) @ it'" using it pr(1) by simp
  moreover have "read_points (Suc k) i ((x # y # pr) @ zs) ps = Inr (ps', zs)" for zs
    using pr(2) [of zs] by simp
  ultimately show ?case by blast
qed

lemma read_colors_split:
  "read_colors ext cs k i it cls = Inr (cls', it') \<Longrightarrow>
   \<exists>pre. it = pre @ it' \<and> (\<forall>zs. read_colors ext cs k i (pre @ zs) cls = Inr (cls', zs))"
proof (induction k arbitrary: i it cls)
  case 0
  then show ?case by auto
next
  case (Suc k)
  from Suc.prems obtain c it1 where
    3: "color_set ext cs it = Inr (c, it1)" and
    4: "read_colors ext cs k (Suc i) it1 (cls[i := c]) = Inr (cls', it')"
    by (auto split: sum.splits)
  from color_set_split [OF 3] obtain pc where
    pc: "it = pc @ it1" "\<And>zs. color_set ext cs (pc @ zs) = Inr (c, zs)" by blast
  from Suc.IH [OF 4] obtain pr where
    pr: "it1 = pr @ it'" "\<And>zs. read_colors ext cs k (Suc i) (pr @ zs) (cls[i := c]) = Inr (cls', zs)"
    by blast
  have "it = (pc @ pr) @ it'" using pc(1) pr(1) by simp
  moreover have "read_colors ext cs (Suc k) i ((pc @ pr) @ zs) cls = Inr (cls', zs)" for zs
    using pc(2) [of "pr @ zs"] pr(2) [of zs] by simp
  ultimately show ?case by blast
qed

lemma read_row_split:
  "read_row ext cs k i it row = Inr (row', it') \<Longrightarrow>
   \<exists>pre. it = pre @ it' \<and> (\<forall>zs. read_row ext cs k i (pre @ zs) row = Inr (row', zs))"
proof (induction k arbitrary: i it row)
  case 0
  then show ?case by auto
next
  case (Suc k)
  from Suc.prems obtain x it1 y it2 c it3 where
    1: "it_next it = Inr (x, it1)" and
    2: "it_next it1 = Inr (y, it2)" and
    3: "color_set ext cs it2 = Inr (c, it3)" and
    4: "read_row ext cs k (Suc i) it3 (row[i := \<lparr>point = (x, y), color = c\<rparr>]) = Inr (row', it')"
    by (auto split: sum.splits)
  from 1 2 have it: "it = x # y # it2" by (simp add: it_next_value)
  from color_set_split [OF 3] obtain pc where
    pc: "it2 = pc @ it3" "\<And>zs. color_set ext cs (pc @ zs) = Inr (c, zs)" by blast
  from Suc.IH [OF 4] obtain pr where
    pr: "it3 = pr @ it'"
      "\<And>zs. read_row ext cs k (Suc i) (pr @ zs) (row[i := \<lparr>point = (x, y), color = c\<rparr>]) = Inr (row', zs)"
    by blast
  have "it = (x # y # pc @ pr) @ it'" using it pc(1) pr(1) by simp
  moreover have "read_row ext cs (Suc k) i ((x # y # pc @ pr) @ zs) row = Inr (row', zs)" for zs
    using pc(2) [of "pr @ zs"] pr(2) [of zs] by simp
  ultimately show ?case by blast
qed

lemma read_patch_data_split:
  assumes "read_patch_data ext patch edgeflag it = Inr (ps, cls, it')"
  shows "\<exists>pre. it = pre @ it' \<and>
           (\<forall>zs. read_patch_data ext patch edgeflag (pre @ zs) = Inr (ps, cls, zs))"
proof -
  consider (tri) "psShadingType ext patch = 4"
    | (coons) "psShadingType ext patch \<noteq> 4" "psShadingType ext patch = 6 \<or> psShadingType ext patch = 7"
    | (other) "psShadingType ext patch \<noteq> 4" "\<not> (psShadingType ext patch = 6 \<or> psShadingType ext patch = 7)"
    by blast
  then show ?thesis
  proof cases
    case tri
    with assms show ?thesis
      by (simp add: read_patch_data_def Let_def) (erule read_vertices_split)
  next
    case coons
    let ?np = "nat (numPoints ext patch edgeflag)"
    let ?nc = "nat (numColors ext patch edgeflag)"
    from assms coons obtain it1 where
      1: "read_points ?np 0 it (replicate ?np (0, 0)) = Inr (ps, it1)" and
      2: "read_colors ext (colorSpace ext patch) ?nc 0 it1 (replicate ?nc BLACK) = Inr (cls, it')"
      by (auto simp: read_patch_data_def Let_def split: sum.splits)
    from read_points_split [OF 1] obtain p1 where
      p1: "it = p1 @ it1" "\<And>zs. read_points ?np 0 (p1 @ zs) (replicate ?np (0, 0)) = Inr (ps, zs)"
      by blast
    from read_colors_split [OF 2] obtain p2 where
      p2: "it1 = p2 @ it'"
        "\<And>zs. read_colors ext (colorSpace ext patch) ?nc 0 (p2 @ zs) (replicate ?nc BLACK) = Inr (cls, zs)"
      by blast
    have "it = (p1 @ p2) @ it'" using p1(1) p2(1) by simp
    moreover have "read_patch_data ext patch edgeflag ((p1 @ p2) @ zs) = Inr (ps, cls, zs)" for zs
      using coons p1(2) [of "p2 @ zs"] p2(2) [of zs] by (simp add: read_patch_data_def Let_def)
    ultimately show ?thesis by blast
  next
    case other
    with assms have "it' = it" and r: "\<And>zs. read_patch_data ext patch edgeflag zs =
        Inr (ps, cls, zs)"
      by (auto simp: read_patch_data_def Let_def)
    then have "it = [] @ it'" by simp
    with r show ?thesis by (metis append_Nil)
  qed
qed

lemma read_patch_split:
  assumes "read_patch ext t cs edgeflag it prev = Inr (patch, it')"
  shows "\<exists>pre. it = pre @ it' \<and> (\<forall>zs. read_patch ext t cs edgeflag (pre @ zs) prev = Inr (patch, zs))"
proof -
  from assms obtain patch0 ps cls patch1 where
    0: "create ext t cs = Inr patch0" and
    1: "read_patch_data ext patch0 edgeflag it = Inr (ps, cls, it')" and
    2: "setPoints ext patch0 ps edgeflag prev = Inr patch1" and
    3: "setColors ext patch1 cls edgeflag prev = Inr patch"
    by (auto simp: read_patch_def split: sum.splits)
  from read_patch_data_split [OF 1] obtain pre where
    pre: "it = pre @ it'" "\<And>zs. read_patch_data ext patch0 edgeflag (pre @ zs) = Inr (ps, cls, zs)"
    by blast
  have "read_patch ext t cs edgeflag (pre @ zs) prev = Inr (patch, zs)" for zs
    using 0 2 3 pre(2) [of zs] by (simp add: read_patch_def)
  with pre(1) show ?thesis by blast
qed


subsection \<open>Operands that end inside a record\<close>

lemma color_set_short:
  "length it < components cs \<Longrightarrow> color_set ext cs it = Inl IteratorException"
  by (simp add: color_set_def)

lemma color_set_length:
  "color_set ext cs it = Inr (c, it') \<Longrightarrow> length it = components cs + length it'"
  by (auto simp: color_set_def split: if_splits)

lemma read_vertices_short_tail:
  "0 < i \<Longrightarrow> length it < k * (3 + components cs) \<Longrightarrow>
   read_vertices ext cs k i it ps cls = Inl IteratorException"
proof (induction k arbitrary: i it ps cls)
  case 0
  then show ?case by simp
next
  case (Suc k)
  show ?case
  proof (cases "it_next (drop 1 it)")
    case (Inl e)
    then show ?thesis using Suc.prems(1) by (simp add: it_next_exception)
  next
    case (Inr a)
    obtain x it1 where a: "a = (x, it1)" by force
    with Inr have 1: "drop 1 it = x # it1" by (simp add: it_next_value)
    show ?thesis
    proof (cases "it_next it1")
      case (Inl e)
      then show ?thesis using Suc.prems(1) Inr a by (simp add: it_next_exception)
    next
      case Inr2: (Inr b)
      obtain y it2 where b: "b = (y, it2)" by force
      with Inr2 have 2: "it1 = y # it2" by (simp add: it_next_value)
      show ?thesis
      proof (cases "color_set ext cs it2")
        case (Inl e)
        then show ?thesis using Suc.prems(1) Inr a Inr2 b by (simp add: color_set_exception color_set_short)
      next
        case Inr3: (Inr d)
        obtain c it3 where d: "d = (c, it3)" by force
        from Inr3 d have "length it2 = components cs + length it3" by (simp add: color_set_length)
        moreover have "length it = 3 + length it2"
          using 1 2 by (cases it) auto
        ultimately have "length it3 < k * (3 + components cs)"
          using Suc.prems(2) by simp
        from Suc.IH [OF _ this, of "Suc i"] show ?thesis
          using Suc.prems(1) Inr a Inr2 b Inr3 d by simp
      qed
    qed
  qed
qed

lemma read_vertices_short:
  assumes "length it < k * (2 + components cs) + (k - 1)"
  shows "read_vertices ext cs k 0 it ps cls = Inl IteratorException"
proof (cases k)
  case 0
  with assms show ?thesis by simp
next
  case (Suc j)
  show ?thesis
  proof (cases "it_next it")
    case (Inl e)
    then show ?thesis using Suc by (simp add: it_next_exception)
  next
    case (Inr a)
    obtain x it1 where a: "a = (x, it1)" by force
    with Inr have 1: "it = x # it1" by (simp add: it_next_value)
    show ?thesis
    proof (cases "it_next it1")
      case (Inl e)
      then show ?thesis using Suc Inr a by (simp add: it_next_exception)
    next
      case Inr2: (Inr b)
      obtain y it2 where b: "b = (y, it2)" by force
      with Inr2 have 2: "it1 = y # it2" by (simp add: it_next_value)
      show ?thesis
      proof (cases "color_set ext cs it2")
        case (Inl e)
        then show ?thesis using Suc Inr a Inr2 b by (simp add: color_set_exception color_set_short)
      next
        case Inr3: (Inr d)
        obtain c it3 where d: "d = (c, it3)" by force
        from Inr3 d have "length it2 = components cs + length it3" by (simp add: color_set_length)
        then have "length it3 < j * (3 + components cs)"
          using assms 1 2 Suc by (simp add: algebra_simps)
        from read_vertices_short_tail [OF _ this, of "Suc 0"] show ?thesis
          using Suc Inr a Inr2 b Inr3 d by simp
      qed
    qed
  qed
qed

lemma read_points_short:
  "length it < 2 * k + m \<Longrightarrow>
   read_points k i it ps = Inl IteratorException \<or>
   (\<exists>ps' it'. read_points k i it ps = Inr (ps', it') \<and> length it' < m)"
proof (induction k arbitrary: i it ps)
  case 0
  then show ?case by simp
next
  case (Suc k)
  show ?case
  proof (cases it)
    case Nil
    then show ?thesis by simp
  next
    case (Cons x it1)
    show ?thesis
    proof (cases it1)
      case Nil
      with Cons show ?thesis by simp
    next
      case Cons2: (Cons y it2)
      have "length it2 < 2 * k + m" using Suc.prems Cons Cons2 by simp
      from Suc.IH [OF this, of "Suc i" "ps[i := (x, y)]"] show ?thesis
        using Cons Cons2 by simp
    qed
  qed
qed

lemma read_colors_short:
  "length it < k * components cs \<Longrightarrow> read_colors ext cs k i it cls = Inl IteratorException"
proof (induction k arbitrary: i it cls)
  case 0
  then show ?case by simp
next
  case (Suc k)
  show ?case
  proof (cases "color_set ext cs it")
    case (Inl e)
    then show ?thesis by (simp add: color_set_exception color_set_short)
  next
    case (Inr d)
    obtain c it1 where d: "d = (c, it1)" by force
    from Inr d have "length it = components cs + length it1" by (simp add: color_set_length)
    then have "length it1 < k * components cs" using Suc.prems by simp
    from Suc.IH [OF this, of "Suc i"] show ?thesis using Inr d by simp
  qed
qed

lemma read_row_short:
  "length it < k * (2 + components cs) \<Longrightarrow> read_row ext cs k i it row = Inl IteratorException"
proof (induction k arbitrary: i it row)
  case 0
  then show ?case by simp
next
  case (Suc k)
  show ?case
  proof (cases it)
    case Nil
    then show ?thesis by simp
  next
    case (Cons x it1)
    show ?thesis
    proof (cases it1)
      case Nil
      with Cons show ?thesis by simp
    next
      case Cons2: (Cons y it2)
      show ?thesis
      proof (cases "color_set ext cs it2")
        case (Inl e)
        then show ?thesis using Cons Cons2 by (simp add: color_set_exception color_set_short)
      next
        case (Inr d)
        obtain c it3 where d: "d = (c, it3)" by force
        from Inr d have "length it2 = components cs + length it3" by (simp add: color_set_length)
        then have "length it3 < k * (2 + components cs)" using Suc.prems Cons Cons2 by simp
        from Suc.IH [OF this, of "Suc i"] show ?thesis using Cons Cons2 Inr d by simp
      qed
    qed
  qed
qed

lemma read_patch_data_short:
  assumes "length it < record_length ext patch edgeflag"
  shows "read_patch_data ext patch edgeflag it = Inl IteratorException"
proof -
  let ?np = "nat (numPoints ext patch edgeflag)"
  let ?nc = "nat (numColors ext patch edgeflag)"
  let ?c = "components (colorSpace ext patch)"
  consider (tri) "psShadingType ext patch = 4"
    | (coons) "psShadingType ext patch \<noteq> 4" "psShadingType ext patch = 6 \<or> psShadingType ext patch = 7"
    | (other) "psShadingType ext patch \<noteq> 4" "\<not> (psShadingType ext patch = 6 \<or> psShadingType ext patch = 7)"
    by blast
  then show ?thesis
  proof cases
    case tri
    with assms have "length it < ?np * (2 + ?c) + (?np - 1)"
      by (simp add: record_length_def Let_def)
    from read_vertices_short [OF this] tri show ?thesis
      by (simp add: read_patch_data_def Let_def)
  next
    case coons
    with assms have "length it < 2 * ?np + ?nc * ?c"
      by (simp add: record_length_def Let_def)
    from read_points_short [OF this, of 0 "replicate ?np (0, 0)"]
    consider (a) "read_points ?np 0 it (replicate ?np (0, 0)) = Inl IteratorException"
      | (b) ps' it' where "read_points ?np 0 it (replicate ?np (0, 0)) = Inr (ps', it')"
          "length it' < ?nc * ?c"
      by blast
    then show ?thesis
    proof cases
      case a
      with coons show ?thesis by (simp add: read_patch_data_def Let_def)
    next
      case b
      from read_colors_short [OF b(2), of ext 0 "replicate ?nc BLACK"] b(1) coons
      show ?thesis by (simp add: read_patch_data_def Let_def)
    qed
  next
    case other
    with assms show ?thesis by (simp add: record_length_def Let_def)
  qed
qed

lemma read_patch_short:
  assumes "create ext t cs = Inr patch" and "length it < record_length ext patch edgeflag"
  shows "read_patch ext t cs edgeflag it prev = Inl IteratorException"
  using assms(1) read_patch_data_short [OF assms(2)] by (simp add: read_patch_def)

lemma processSequentialPatchMesh_incomplete:
  "processSequentialPatchMesh ext t cs whole prev s = (None, s2) \<Longrightarrow>
   create ext t cs = Inr patch0 \<Longrightarrow>
   length rest < record_length ext patch0 (static_cast_int ef) \<Longrightarrow>
   processSequentialPatchMesh ext t cs (whole @ ef # rest) prev s = (Some IteratorException, s2)"
proof (induction ext t cs whole prev s rule: processSequentialPatchMesh.induct)
  case (1 ext t cs it prev s)
  show ?case
  proof (cases it)
    case Nil
    with "1.prems"(1) have "s2 = s" by (simp add: processSequentialPatchMesh.simps)
    with Nil read_patch_short [OF "1.prems"(2,3), of prev] show ?thesis
      by (simp add: processSequentialPatchMesh.simps)
  next
    case (Cons ef1 it1)
    show ?thesis
    proof (cases "read_patch ext t cs (static_cast_int ef1) it1 prev")
      case (Inl e)
      with "1.prems"(1) Cons show ?thesis by (simp add: processSequentialPatchMesh.simps)
    next
      case (Inr x)
      obtain patch it2 where x: "x = (patch, it2)" by force
      obtain r1 s1 where dp: "draw_patch ext patch s = (r1, s1)" by force
      show ?thesis
      proof (cases r1)
        case (Some e)
        with "1.prems"(1) Cons Inr x dp show ?thesis
          by (simp add: processSequentialPatchMesh.simps)
      next
        case None
        with "1.prems"(1) Cons Inr x dp
        have rec: "processSequentialPatchMesh ext t cs it2 (Some patch) s1 = (None, s2)"
          by (simp add: processSequentialPatchMesh.simps)
        have ih: "processSequentialPatchMesh ext t cs (it2 @ ef # rest) (Some patch) s1 =
            (Some IteratorException, s2)"
          using "1.IH" [OF Cons Inr x [symmetric] dp [symmetric] _ rec "1.prems"(2,3)] None by simp
        from Inr x have "read_patch ext t cs (static_cast_int ef1) it1 prev = Inr (patch, it2)" by simp
        from read_patch_split [OF this] obtain pre where
          pre: "it1 = pre @ it2"
            "\<And>zs. read_patch ext t cs (static_cast_int ef1) (pre @ zs) prev = Inr (patch, zs)"
          by blast
        have "it @ ef # rest = ef1 # pre @ (it2 @ ef # rest)" using Cons pre(1) by simp
        then show ?thesis
          using pre(2) [of "it2 @ ef # rest"] dp None ih
          by (simp add: processSequentialPatchMesh.simps)
      qed
    qed
  qed
qed

lemma lattice_rows_incomplete:
  "lattice_rows ext cs n patch row1 row2 whole s = (None, s2) \<Longrightarrow>
   2 \<le> n \<Longrightarrow> partial \<noteq> [] \<Longrightarrow> length partial < n * (2 + components cs) \<Longrightarrow>
   lattice_rows ext cs n patch row1 row2 (whole @ partial) s = (Some IteratorException, s2)"
proof (induction ext cs n patch row1 row2 whole s rule: lattice_rows.induct)
  case (1 ext cs n patch row1 row2 it s)
  show ?case
  proof (cases "it = []")
    case True
    with "1.prems"(1) have "s2 = s" by (simp add: lattice_rows.simps it_valid_def)
    with True "1.prems"(2,3) read_row_short [OF "1.prems"(4), of ext 0 row2] show ?thesis
      by (simp add: lattice_rows.simps [of ext cs n patch row1 row2 partial] it_valid_def)
  next
    case False
    then have g: "it_valid it \<and> 2 \<le> n" using "1.prems"(2) by (simp add: it_valid_def)
    show ?thesis
    proof (cases "read_row ext cs n 0 it row2")
      case (Inl e)
      with "1.prems"(1) g show ?thesis by (simp add: lattice_rows.simps)
    next
      case (Inr x)
      obtain row2' it' where x: "x = (row2', it')" by force
      obtain r1 patch' s1 where lt: "lattice_triangles ext patch (n - 1) 0 row1 row2' s = (r1, patch', s1)"
        by (metis prod_cases3)
      show ?thesis
      proof (cases r1)
        case (Some e)
        with "1.prems"(1) g Inr x lt show ?thesis by (simp add: lattice_rows.simps)
      next
        case None
        with "1.prems"(1) g Inr x lt
        have rec: "lattice_rows ext cs n patch' row2' row1 it' s1 = (None, s2)"
          by (simp add: lattice_rows.simps)
        have ih: "lattice_rows ext cs n patch' row2' row1 (it' @ partial) s1 =
            (Some IteratorException, s2)"
          using "1.IH" [OF g Inr x [symmetric] _ _ _ rec "1.prems"(2,3,4)] lt None by simp
        from Inr x have "read_row ext cs n 0 it row2 = Inr (row2', it')" by simp
        from read_row_split [OF this] obtain pre where
          pre: "it = pre @ it'" "\<And>zs. read_row ext cs n 0 (pre @ zs) row2 = Inr (row2', zs)"
          by blast
        have "it @ partial = pre @ (it' @ partial)" using pre(1) by simp
        moreover have "it_valid (it @ partial)" using False by (simp add: it_valid_def)
        ultimately show ?thesis
          using "1.prems"(2) pre(2) [of "it' @ partial"] lt None ih
          by (simp add: lattice_rows.simps [of ext cs n patch row1 row2 "pre @ it' @ partial"])
      qed
    qed
  qed
qed

lemma processLatticeTriangularPatchMesh_incomplete:
  assumes "incomplete_record ext 5 cs whole partial"
    and "complete_records ext 5 cs whole s = (None, s2)"
  shows "processLatticeTriangularPatchMesh ext cs (whole @ partial) s = (Some IteratorException, s2)"
proof (cases whole)
  case Nil
  with assms(2) have s2: "s2 = s" by (simp add: complete_records_def)
  show ?thesis
  proof (cases partial)
    case Nil2: Nil
    with Nil s2 show ?thesis by (simp add: processLatticeTriangularPatchMesh_def)
  next
    case (Cons v rest)
    with assms(1) Nil have v: "2 \<le> static_cast_int v"
      and len: "length rest < nat (static_cast_int v) * (2 + components cs)"
      by (simp_all add: incomplete_record_def)
    from read_row_short [OF len, of ext 0] v Nil Cons s2 show ?thesis
      by (simp add: processLatticeTriangularPatchMesh_def Let_def)
  qed
next
  case (Cons v rows)
  let ?n = "nat (static_cast_int v)"
  from assms(1) Cons have v: "2 \<le> static_cast_int v" and ne: "partial \<noteq> []"
    and len: "length partial < ?n * (2 + components cs)"
    by (simp_all add: incomplete_record_def)
  from assms(2) Cons have pm: "processLatticeTriangularPatchMesh ext cs (v # rows) s = (None, s2)"
    by (simp add: complete_records_def process_mesh_def)
  from pm v obtain row1 it2 s1 where
    rr: "read_row ext cs ?n 0 rows (replicate ?n new_PatchVertex) = Inr (row1, it2)" and
    cb: "ShadingCallback s = Inr s1" and
    lr: "lattice_rows ext cs ?n (newLattice ext cs) row1 (replicate ?n new_PatchVertex) it2 s1 = (None, s2)"
    by (auto simp: processLatticeTriangularPatchMesh_def Let_def split: sum.splits)
  from read_row_split [OF rr] obtain pre where
    pre: "rows = pre @ it2"
      "\<And>zs. read_row ext cs ?n 0 (pre @ zs) (replicate ?n new_PatchVertex) = Inr (row1, zs)"
    by blast
  have n: "2 \<le> ?n" using v by simp
  from lattice_rows_incomplete [OF lr n ne len]
  have "lattice_rows ext cs ?n (newLattice ext cs) row1 (replicate ?n new_PatchVertex) (it2 @ partial) s1
      = (Some IteratorException, s2)" .
  moreover have "whole @ partial = v # pre @ (it2 @ partial)" using Cons pre(1) by simp
  ultimately show ?thesis
    using v cb pre(2) [of "it2 @ partial"]
    by (simp add: processLatticeTriangularPatchMesh_def Let_def)
qed

lemma process_mesh_incomplete:
  assumes "incomplete_record ext t cs whole partial"
    and "complete_records ext t cs whole s = (None, s2)"
  shows "process_mesh ext t cs (whole @ partial) s = (Some IteratorException, s2)"
proof (cases "t = 5")
  case True
  with processLatticeTriangularPatchMesh_incomplete [of ext cs whole partial s s2] assms
  show ?thesis by (simp add: process_mesh_def)
next
  case False
  with assms(1) obtain ef rest patch0 where
    p: "partial = ef # rest" and c: "create ext t cs = Inr patch0" and
    len: "length rest < record_length ext patch0 (static_cast_int ef)"
    by (auto simp: incomplete_record_def split: list.splits sum.splits)
  have "processSequentialPatchMesh ext t cs whole None s = (None, s2)"
    using assms(2) False
    by (cases "whole = []")
       (simp_all add: complete_records_def process_mesh_def processSequentialPatchMesh.simps)
  from processSequentialPatchMesh_incomplete [OF this c len] False p show ?thesis
    by (simp add: process_mesh_def)
qed

lemma complete_records_extends:
  "complete_records ext t cs whole s = (r, s') \<Longrightarrow> extends s s'"
  by (cases "whole = []") (auto simp: complete_records_def extends_refl dest: process_mesh_extends)

subsection \<open>The result of shfill\<close>

lemma clip_path_fields:
  assumes "clip_path ext pth evenodd s = (pth', s')"
  shows "messages s' = messages s \<and> actions s' = actions s \<and> xmlnode s' = xmlnode s \<and>
         (\<exists>out. emitted s' = emitted s @ out)"
  using assms
  by (auto simp: clip_path_def Let_def split: option.splits if_splits prod.splits)

lemma shfill_header_fields:
  assumes "shfill_header ext params s = Inr (t, cs, bb, it, s1)"
  shows "messages s1 = messages s \<and> actions s1 = actions s \<and> (\<exists>out. emitted s1 = emitted s @ out)"
proof (cases bb)
  case False
  with assms have "s1 = s"
    by (auto simp: shfill_header_def Let_def split: sum.splits if_splits)
  then show ?thesis by simp
next
  case True
  with assms obtain it3 where "bbox_clip ext it3 s = Inr (s1, it)"
    by (auto simp: shfill_header_def Let_def split: sum.splits if_splits)
  then obtain pth where "s1 = clip_local ext pth False s"
    by (auto simp: bbox_clip_def Let_def split: list.splits)
  then have "s1 = snd (clip_path ext pth False (s\<lparr>path := removeRedundantCommands (path s)\<rparr>))"
    by (simp add: clip_local_def Let_def)
  with clip_path_fields [of ext pth False "s\<lparr>path := removeRedundantCommands (path s)\<rparr>"
      "fst (clip_path ext pth False (s\<lparr>path := removeRedundantCommands (path s)\<rparr>))" s1]
  show ?thesis by simp
qed

lemma shfill_result:
  assumes "9 \<le> length params"
    and "shfill_header ext params s = Inr (t, cs, bb, it, s1)"
    and "process_mesh ext t cs it s1 = (r, s2)"
    and "r \<noteq> Some NullDereference"
  shows "shfill ext params s =
           Inr ((case r of
                   None \<Rightarrow> s2
                 | Some (ShadingException msg) \<Rightarrow> estream (''PostScript error: '' @ msg @ [CHR 0x0A]) s2
                 | Some e \<Rightarrow> estream incomplete_shading_data s2)
                \<lparr>clipStack := (if bb then pop (-1) False (clipStack s2) else clipStack s2)\<rparr>)"
  using assms
  by (cases r; cases "the r") (auto simp: shfill_def estream_def)

text \<open>
  Claim C2, amended. Let the operand list have at least 9 operands and a complete header
  (shading type, colour space, background and clipping rectangle), and let its patch data
  consist of complete records, which are decoded without an exception, followed by an
  incomplete record. Then \<^verbatim>\<open>shfill\<close> returns normally and writes exactly one message,
  \<^verbatim>\<open>PostScript error: incomplete shading data\<close>. The output is the output of the complete
  records, which begins with the output before the call: the incomplete record appends
  nothing, and nothing appended before is changed or removed.
\<close>

theorem shfill_truncated_patch_data:
  assumes "9 \<le> length params"
    and "shfill_header ext params s = Inr (shadingTypeID, cs, bboxGiven, whole @ partial, s1)"
    and "complete_records ext shadingTypeID cs whole s1 = (None, s2)"
    and "incomplete_record ext shadingTypeID cs whole partial"
  shows "\<exists>s'. shfill ext params s = Inr s' \<and>
           messages s' = messages s @ [incomplete_shading_data] \<and>
           emitted s' = emitted s2 \<and>
           (\<exists>out. emitted s2 = emitted s @ out)"
proof -
  let ?s' = "(estream incomplete_shading_data s2)
      \<lparr>clipStack := (if bboxGiven then pop (-1) False (clipStack s2) else clipStack s2)\<rparr>"
  have pm: "process_mesh ext shadingTypeID cs (whole @ partial) s1 = (Some IteratorException, s2)"
    using assms(4,3) by (rule process_mesh_incomplete)
  have r: "shfill ext params s = Inr ?s'"
    using shfill_result [OF assms(1,2) pm] by simp
  from complete_records_extends [OF assms(3)] obtain out2 where
    s2: "s2 = s1\<lparr>emitted := emitted s1 @ out2\<rparr>"
    by (auto simp: extends_def)
  from shfill_header_fields [OF assms(2)] obtain out1 where
    s1: "messages s1 = messages s" "emitted s1 = emitted s @ out1"
    by blast
  have m: "messages ?s' = messages s @ [incomplete_shading_data]"
    using s1 s2 by (simp add: estream_def)
  have e: "emitted ?s' = emitted s2"
    by (simp add: estream_def)
  have p: "\<exists>out. emitted s2 = emitted s @ out"
    using s1 s2 by auto
  from r m e p show ?thesis by blast
qed

lemma simple_read_triangle:
  "read_patch simple_ext 4 GRAY_SPACE 0 (x1 # y1 # g1 # e2 # x2 # y2 # g2 # e3 # x3 # y3 # g3 # it) prev =
     Inr ((4, GRAY_SPACE, [(x1, y1), (x2, y2), (x3, y3)],
           [RGB g1 g1 g1, RGB g2 g2 g2, RGB g3 g3 g3]), it)"
  by (simp add: read_patch_def read_patch_data_def simple_ext_def simple_numPoints_def
      simple_numColors_def Let_def numeral_3_eq_3 color_set_def simple_toColor_def)

lemma simple_draw_patch:
  assumes "actions s = Some act" and "xmlnode s = None"
  shows "\<exists>s'. draw_patch simple_ext patch s = (None, s') \<and>
           map elem_name (elements (emitted s')) = map elem_name (elements (emitted s)) @ [''g'', ''path'']"
  using assms
  by (simp add: draw_patch_def ShadingCallback_def approximate_patch_def patchSegment_def
      simple_ext_def Let_def elements_simps elements_append name_addAttribute
      addAttribute_if_def new_XMLElementNode_def)

theorem shfill_truncated_patch_data_witness:
  "9 \<le> length truncated_mesh \<and>
   shfill_header simple_ext truncated_mesh (initialize (Some simple_actions)) =
     Inr (4, GRAY_SPACE, False, [0, 1, 1, 0.5, 0, 9, 1, 0.5, 0, 5, 9, 0.5] @ [0, 7, 8],
          initialize (Some simple_actions)) \<and>
   fst (complete_records simple_ext 4 GRAY_SPACE [0, 1, 1, 0.5, 0, 9, 1, 0.5, 0, 5, 9, 0.5]
          (initialize (Some simple_actions))) = None \<and>
   incomplete_record simple_ext 4 GRAY_SPACE [0, 1, 1, 0.5, 0, 9, 1, 0.5, 0, 5, 9, 0.5] [0, 7, 8] \<and>
   map_sum id (\<lambda>s'. (messages s', map elem_name (elements (emitted s'))))
     (shfill simple_ext truncated_mesh (initialize (Some simple_actions))) =
     Inr ([incomplete_shading_data], [''g'', ''path'']) \<and>
   9 \<le> length truncated_lattice \<and>
   shfill_header simple_ext truncated_lattice (initialize (Some simple_actions)) =
     Inr (5, GRAY_SPACE, False, [2, 0, 0, 0.5, 1, 0, 0.5] @ [0, 1],
          initialize (Some simple_actions)) \<and>
   fst (complete_records simple_ext 5 GRAY_SPACE [2, 0, 0, 0.5, 1, 0, 0.5]
          (initialize (Some simple_actions))) = None \<and>
   incomplete_record simple_ext 5 GRAY_SPACE [2, 0, 0, 0.5, 1, 0, 0.5] [0, 1] \<and>
   map_sum id (\<lambda>s'. (messages s', map elem_name (elements (emitted s'))))
     (shfill simple_ext truncated_lattice (initialize (Some simple_actions))) =
     Inr ([incomplete_shading_data], [''g''])"
proof -
  let ?s0 = "initialize (Some simple_actions)"
  let ?whole = "[0, 1, 1, 0.5, 0, 9, 1, 0.5, 0, 5, 9, 0.5] :: real list"
  have len: "9 \<le> length truncated_mesh" by (simp add: truncated_mesh_def)
  have h: "shfill_header simple_ext truncated_mesh ?s0 =
      Inr (4, GRAY_SPACE, False, ?whole @ [0, 7, 8], ?s0)"
    by (simp add: shfill_header_def truncated_mesh_def Let_def static_cast_int_unfold to_ColorSpace_def)
  have a: "actions ?s0 = Some simple_actions" "xmlnode ?s0 = None"
    by (simp_all add: initialize_def)
  have e0: "emitted ?s0 = []" "messages ?s0 = []"
    by (simp_all add: initialize_def)
  from simple_draw_patch [OF a] obtain s2 where
    d: "draw_patch simple_ext (4, GRAY_SPACE, [(1, 1), (9, 1), (5, 9)],
          [RGB 0.5 0.5 0.5, RGB 0.5 0.5 0.5, RGB 0.5 0.5 0.5]) ?s0 = (None, s2)" and
    n: "map elem_name (elements (emitted s2)) = map elem_name (elements (emitted ?s0)) @ [''g'', ''path'']"
    by blast
  have cr: "complete_records simple_ext 4 GRAY_SPACE ?whole ?s0 = (None, s2)"
    using d
    by (simp add: complete_records_def process_mesh_def processSequentialPatchMesh.simps
        static_cast_int_unfold simple_read_triangle)
  have ir: "incomplete_record simple_ext 4 GRAY_SPACE ?whole [0, 7, 8]"
    by (simp add: incomplete_record_def record_length_def simple_ext_def simple_numPoints_def
        simple_numColors_def Let_def static_cast_int_unfold)
  from shfill_truncated_patch_data [OF len h cr ir] obtain s' where
    "shfill simple_ext truncated_mesh ?s0 = Inr s'"
    "messages s' = messages ?s0 @ [incomplete_shading_data]"
    "emitted s' = emitted s2"
    by blast
  then have r: "map_sum id (\<lambda>s'. (messages s', map elem_name (elements (emitted s'))))
     (shfill simple_ext truncated_mesh ?s0) = Inr ([incomplete_shading_data], [''g'', ''path''])"
    using n e0 by (simp add: elements_simps)
  let ?rows = "[2, 0, 0, 0.5, 1, 0, 0.5] :: real list"
  let ?s3 = "?s0\<lparr>emitted := [ToPage (new_XMLElementNode ''g'')]\<rparr>"
  have len5: "9 \<le> length truncated_lattice" by (simp add: truncated_lattice_def)
  have h5: "shfill_header simple_ext truncated_lattice ?s0 =
      Inr (5, GRAY_SPACE, False, ?rows @ [0, 1], ?s0)"
    by (simp add: shfill_header_def truncated_lattice_def Let_def static_cast_int_unfold
        to_ColorSpace_def)
  have cr5: "complete_records simple_ext 5 GRAY_SPACE ?rows ?s0 = (None, ?s3)"
    by (simp add: complete_records_def process_mesh_def processLatticeTriangularPatchMesh_def
        Let_def static_cast_int_unfold numeral_2_eq_2 color_set_def ShadingCallback_def
        initialize_def topID_def addAttribute_if_def lattice_rows.simps it_valid_def)
  have ir5: "incomplete_record simple_ext 5 GRAY_SPACE ?rows [0, 1]"
    by (simp add: incomplete_record_def static_cast_int_unfold)
  from shfill_truncated_patch_data [OF len5 h5 cr5 ir5] obtain s'' where
    "shfill simple_ext truncated_lattice ?s0 = Inr s''"
    "messages s'' = messages ?s0 @ [incomplete_shading_data]"
    "emitted s'' = emitted ?s3"
    by blast
  then have r5: "map_sum id (\<lambda>s'. (messages s', map elem_name (elements (emitted s'))))
     (shfill simple_ext truncated_lattice ?s0) = Inr ([incomplete_shading_data], [''g''])"
    by (simp add: elements_simps initialize_def new_XMLElementNode_def)
  from len h cr ir r len5 h5 cr5 ir5 r5 show ?thesis by simp
qed

text \<open>
  Two truncated operand lists that \<^verbatim>\<open>shfill\<close> drops without a message. The operands
  \<^verbatim>\<open>4 1 0 0  0 1 2\<close> announce a triangle mesh and break off after the coordinates of the
  first vertex; the list has fewer than 9 operands, and line 774 returns. The nine
  operands \<^verbatim>\<open>5 1 0 0  1  0 0 0.5  7\<close> announce a lattice mesh of one vertex per row and
  break off in the second row; line 946 returns before a row is read. In both cases the
  state is unchanged and the error stream stays empty.
\<close>

theorem shfill_silent_truncation_counterexample:
  "incomplete_record simple_ext 4 GRAY_SPACE [] [0, 1, 2] \<and>
   shfill simple_ext [4, 1, 0, 0, 0, 1, 2] (initialize (Some simple_actions)) =
     Inr (initialize (Some simple_actions)) \<and>
   length [5, 1, 0, 0, 1, 0, 0, 0.5, 7 :: real] = 9 \<and>
   shfill simple_ext [5, 1, 0, 0, 1, 0, 0, 0.5, 7] (initialize (Some simple_actions)) =
     Inr (initialize (Some simple_actions)) \<and>
   messages (initialize (Some simple_actions)) = []"
  by (simp add: incomplete_record_def record_length_def simple_ext_def simple_numPoints_def
      simple_numColors_def Let_def static_cast_int_unfold shfill_def shfill_header_def
      to_ColorSpace_def process_mesh_def processLatticeTriangularPatchMesh_def initialize_def)

lemma shfill_clipStack:
  assumes "9 \<le> length params"
    and "shfill_header ext params s = Inr (t, cs, bb, it, s1)"
    and "actions s \<noteq> None"
  shows "\<exists>s'. shfill ext params s = Inr s' \<and>
           clipStack s' = (if bb then pop (-1) False (clipStack s1) else clipStack s1)"
proof -
  obtain r s2 where pm: "process_mesh ext t cs it s1 = (r, s2)" by force
  have "actions s1 \<noteq> None"
    using shfill_header_fields [OF assms(2)] assms(3) by simp
  with process_mesh_null [of ext t cs it s1 s2] pm have r: "r \<noteq> Some NullDereference"
    by auto
  have "clipStack s2 = clipStack s1"
    using process_mesh_extends [OF pm] by (auto dest: extends_fields)
  with shfill_result [OF assms(1,2) pm r] show ?thesis
    by (cases r; cases "the r") (simp_all add: estream_def)
qed

lemma triangle_mesh_header:
  assumes "actions s = Some simple_actions" and "\<not> COMPUTE_CLIPPATHS_INTERSECTIONS s"
  shows "\<exists>s1 it. shfill_header simple_ext triangle_mesh s = Inr (4, GRAY_SPACE, True, it, s1) \<and>
           clipStack s1 =
             replace (path_closepath (path_lineto 0 10 (path_lineto 10 10
               (path_lineto 10 0 (path_moveto 0 0 new_Path))))) (clipStack s)"
  using assms
  by (simp add: shfill_header_def triangle_mesh_def Let_def static_cast_int_unfold to_ColorSpace_def
      bbox_clip_def clip_local_def clip_path_def simple_actions_def isIdentity_def
      path_empty_def path_closepath_def path_lineto_def path_moveto_def new_Path_def
      setWindingRule_def split: prod.splits)

lemma bbox_clip_clipStack:
  assumes "bbox_clip ext it3 s = Inr (s1, it)" and "actions s = Some act"
  shows "\<exists>pth. clipStack s1 = replace pth (clipStack s)"
proof -
  from assms(1) obtain x1 y1 x2 y2 where
    s1: "s1 = clip_local ext (path_closepath (path_lineto x1 y2 (path_lineto x2 y2
            (path_lineto x2 y1 (path_moveto x1 y1 new_Path))))) False s"
    by (auto simp: bbox_clip_def Let_def split: list.splits)
  show ?thesis
    unfolding s1 using assms(2)
    by (auto simp: clip_local_def clip_path_def Let_def path_empty_def path_closepath_def
        split: prod.splits)
qed

lemma shfill_bbox_nonempty_stack:
  assumes "9 \<le> length params"
    and "shfill_header ext params s = Inr (t, cs, True, it, s1)"
    and "actions s = Some act"
    and "stack (clipStack s) = e # st"
  shows "\<exists>s'. shfill ext params s = Inr s' \<and>
           stack (clipStack s') =
             (if saveID e < 0 then st
              else e\<lparr>pathID := Suc (length (paths (clipStack s)))\<rparr> # st)"
proof -
  from assms(2) obtain it3 where "bbox_clip ext it3 s = Inr (s1, it)"
    by (auto simp: shfill_header_def Let_def split: sum.splits if_splits)
  from bbox_clip_clipStack [OF this assms(3)] obtain pth where
    "clipStack s1 = replace pth (clipStack s)" by blast
  then have s1: "stack (clipStack s1) = e\<lparr>pathID := Suc (length (paths (clipStack s)))\<rparr> # st"
    using assms(4) by (simp add: replace_def Let_def)
  from shfill_clipStack [OF assms(1,2)] assms(3) obtain s' where
    "shfill ext params s = Inr s'" "clipStack s' = pop (-1) False (clipStack s1)"
    by auto
  then show ?thesis using s1 by (auto simp: pop_def Let_def)
qed

text \<open>
  Claim C4 does not hold of the code. \<^verbatim>\<open>clip\<close> does not push the rectangle: \<^verbatim>\<open>replace\<close>
  overwrites the path ID of the top entry and pushes an entry only on an empty stack.
  The \<^verbatim>\<open>pop\<close> at line 823 then removes the top entry if it is unnamed (lemma
  \<open>shfill_bbox_nonempty_stack\<close>, for every stack that is not empty). With one unnamed
  entry on the stack before the call the stack is empty afterwards; with one named entry
  without clipping path the entry stays and refers to the rectangle after the call.
\<close>

theorem shfill_bbox_unbalanced_clip_stack:
  "stack (clipStack (gsave [] (initialize (Some simple_actions)))) = [new_Entry 0 (-1)] \<and>
   map_sum id (\<lambda>s'. stack (clipStack s'))
     (shfill simple_ext triangle_mesh (gsave [] (initialize (Some simple_actions)))) = Inr [] \<and>
   map pathID (stack (clipStack (save [1] (initialize (Some simple_actions))))) = [0] \<and>
   map_sum id (\<lambda>s'. map pathID (stack (clipStack s')))
     (shfill simple_ext triangle_mesh (save [1] (initialize (Some simple_actions)))) = Inr [1]"
proof -
  let ?s0 = "initialize (Some simple_actions)"
  let ?bb = "path_closepath (path_lineto 0 10 (path_lineto 10 10
               (path_lineto 10 0 (path_moveto 0 0 new_Path))))"
  have len: "9 \<le> length triangle_mesh" by (simp add: triangle_mesh_def)
  have ne: "\<not> path_empty ?bb"
    by (simp add: path_empty_def path_closepath_def)
  have g0: "stack (clipStack (gsave [] ?s0)) = [new_Entry 0 (-1)]"
    by (simp add: gsave_def dup_def initialize_def new_Entry_def)
  have s0: "map pathID (stack (clipStack (save [1] ?s0))) = [0]"
    by (simp add: save_def dup_def initialize_def new_Entry_def)
  have ga: "actions (gsave [] ?s0) = Some simple_actions"
      "\<not> COMPUTE_CLIPPATHS_INTERSECTIONS (gsave [] ?s0)"
    by (simp_all add: gsave_def initialize_def)
  have sa: "actions (save [1] ?s0) = Some simple_actions"
      "\<not> COMPUTE_CLIPPATHS_INTERSECTIONS (save [1] ?s0)"
    by (simp_all add: save_def initialize_def)
  from triangle_mesh_header [OF ga] obtain s1 it where
    h1: "shfill_header simple_ext triangle_mesh (gsave [] ?s0) = Inr (4, GRAY_SPACE, True, it, s1)"
    and c1: "clipStack s1 = replace ?bb (clipStack (gsave [] ?s0))"
    by blast
  from shfill_clipStack [OF len h1] ga(1) obtain s' where
    r1: "shfill simple_ext triangle_mesh (gsave [] ?s0) = Inr s'"
    and "clipStack s' = pop (-1) False (clipStack s1)"
    by auto
  then have "stack (clipStack s') = []"
    unfolding c1
    by (simp add: gsave_def dup_def initialize_def new_Entry_def replace_def pop_def Let_def)
  with r1 have 1: "map_sum id (\<lambda>s'. stack (clipStack s'))
     (shfill simple_ext triangle_mesh (gsave [] ?s0)) = Inr []"
    by simp
  from triangle_mesh_header [OF sa] obtain s2 it2 where
    h2: "shfill_header simple_ext triangle_mesh (save [1] ?s0) = Inr (4, GRAY_SPACE, True, it2, s2)"
    and c2: "clipStack s2 = replace ?bb (clipStack (save [1] ?s0))"
    by blast
  from shfill_clipStack [OF len h2] sa(1) obtain s'' where
    r2: "shfill simple_ext triangle_mesh (save [1] ?s0) = Inr s''"
    and "clipStack s'' = pop (-1) False (clipStack s2)"
    by auto
  then have "map pathID (stack (clipStack s'')) = [1]"
    unfolding c2
    by (simp add: save_def dup_def initialize_def new_Entry_def replace_def pop_def Let_def
        static_cast_int_unfold)
  with r2 have 2: "map_sum id (\<lambda>s'. map pathID (stack (clipStack s')))
     (shfill simple_ext triangle_mesh (save [1] ?s0)) = Inr [1]"
    by simp
  from g0 1 s0 2 show ?thesis by blast
qed

end
